theory Spec2Isabelle
  imports Main "HOL-Library.AList"
begin

section \<open>Bulk issue creator (scripts/create\_issues.py)\<close>

text \<open>
  A shallow embedding of the class \<open>GitHubIssueCreator\<close> and of \<open>main\<close>.

  \<^item> The object's fields (\<open>repo\<close>, \<open>dry_run\<close>, \<open>milestone_cache\<close>, \<open>label_cache\<close>) are
    fields of the record \<open>creator\<close>. The record also carries the environment the
    methods act on: the state of the external tool (\<open>world\<close>), the argument vectors
    that \<open>run_gh_command\<close> handed to \<open>subprocess.run\<close> so far (\<open>calls\<close>), and the lines
    printed so far (\<open>out\<close>).
  \<^item> The call \<open>subprocess.run(["gh"] + args, ..., check=True)\<close> is a parameter \<open>gh\<close>: from
    the state of the environment and an argument vector it gives what the call does
    (it returns with the standard output of the process, it raises
    \<open>CalledProcessError\<close> because the process failed, or it raises another exception,
    such as \<open>ValueError\<close> for a NUL character in an argument or \<open>OSError\<close> for an
    argument that is too long) and the next state of the environment.
  \<^item> Python exceptions that nothing catches are values of \<open>py_error\<close>; a method returns
    \<open>(py_error + 'a) \<times> creator\<close>, \<open>Inl\<close> being the exception that left it and the state
    being the one reached at that point.
  \<^item> Strings are ASCII text. What \<open>yaml.safe_load\<close> returns at top level is a
    \<open>document\<close>; an issue record is a mapping in which a key may be absent or null,
    and a value that is present and not null has the type the configuration format
    gives it (a string for title, body and milestone, a list of strings for labels).
    Printing is taken not to raise.
\<close>

subsection \<open>Python string helpers\<close>

text \<open>\<open>str.isspace\<close> on ASCII: tab, LF, VT, FF, CR, FS, GS, RS, US and space.\<close>

definition is_space :: "char \<Rightarrow> bool" where
  "is_space c = (let n = (of_char c :: nat) in (9 \<le> n \<and> n \<le> 13) \<or> (28 \<le> n \<and> n \<le> 32))"

text \<open>\<open>s.strip()\<close>.\<close>

definition py_strip :: "string \<Rightarrow> string" where
  "py_strip s = rev (dropWhile is_space (rev (dropWhile is_space s)))"

definition is_digit :: "char \<Rightarrow> bool" where
  "is_digit c = (let n = (of_char c :: nat) in 48 \<le> n \<and> n \<le> 57)"

definition digit_val :: "char \<Rightarrow> nat" where
  "digit_val c = of_char c - 48"

text \<open>
  The digit part of Python's integer literal grammar as \<open>int(str)\<close> accepts it: one or
  more digits, single underscores allowed between digits only. \<open>prev\<close> tells whether
  the previous character was a digit.
\<close>

fun parse_digits :: "nat \<Rightarrow> bool \<Rightarrow> string \<Rightarrow> nat option" where
  "parse_digits acc prev [] = (if prev then Some acc else None)"
| "parse_digits acc prev (c # cs) =
     (if is_digit c then parse_digits (acc * 10 + digit_val c) True cs
      else if c = CHR ''_'' \<and> prev then parse_digits acc False cs
      else None)"

text \<open>CPython refuses to convert a string with more digit characters than
  \<open>sys.int_info.default_max_str_digits\<close>; the sign and underscores are not counted.\<close>

definition int_max_str_digits :: nat where
  "int_max_str_digits = 4300"

definition digit_count :: "string \<Rightarrow> nat" where
  "digit_count s = length (filter is_digit s)"

text \<open>\<open>int(s)\<close> for a string: surrounding whitespace is dropped, an optional sign, then
  the digits; \<open>None\<close> is \<open>ValueError\<close>, raised for a malformed string and for one with
  too many digits.\<close>

definition py_int :: "string \<Rightarrow> int option" where
  "py_int s =
     (if int_max_str_digits < digit_count (py_strip s) then None
      else
        (case py_strip s of
           [] \<Rightarrow> None
         | c # cs \<Rightarrow>
             if c = CHR ''-'' then map_option (\<lambda>n. - int n) (parse_digits 0 False cs)
             else if c = CHR ''+'' then map_option int (parse_digits 0 False cs)
             else map_option int (parse_digits 0 False (c # cs))))"

text \<open>\<open>sep.join(xs)\<close>.\<close>

fun join :: "string \<Rightarrow> string list \<Rightarrow> string" where
  "join sep [] = []"
| "join sep [x] = x"
| "join sep (x # y # ys) = x @ sep @ join sep (y # ys)"

subsection \<open>Data\<close>

text \<open>One entry of the \<open>issues\<close> list, as \<open>create_issue\<close> reads it with \<open>dict.get\<close>.
  \<open>title\<close> and \<open>milestone\<close> are read without a default: they are \<open>None\<close> when the key is
  absent or null. \<open>body\<close> and \<open>labels\<close> are read with a default, so an absent \<open>body\<close> is
  \<open>Some []\<close> (the empty string) and an absent \<open>labels\<close> is \<open>Some []\<close> (the empty list); for
  these two \<open>None\<close> is a key that is present with a null value.\<close>

record issue_data =
  title :: "string option"
  body :: "string option"
  labels :: "string list option"
  milestone :: "string option"

text \<open>Every line the program prints, one constructor per \<open>print\<close> call (the three lines
  of the dry-run issue preview are one constructor).\<close>

datatype msg =
    GhError
  | DryRunMilestone string
  | MilestoneExists string int
  | CreatingMilestone string
  | CreatedMilestone string int
  | DryRunLabel string
  | CreatingLabel string
  | CreatedLabel string
  | SkippingNoTitle
  | Processing string
  | MilestoneFailed string
  | LabelWarning string
  | DryRunIssue string string "string option"
  | CreatingIssue
  | CreatedIssue string
  | FailedIssue
  | Banner string bool
  | LoadError
  | NoIssuesFound
  | Found nat
  | Summary nat nat nat
  | DryRunReminder
  | Footer
  | GhNotFound

datatype py_error =
    ValueError | TypeError | AttributeError | OSError | FileNotFoundError | UnicodeDecodeError
  | SystemExit nat

text \<open>What a call of \<open>subprocess.run\<close> with \<open>check=True\<close> does.\<close>

datatype outcome = Exit0 string | CalledProcessError | Raises py_error

record 'w creator =
  repo :: string
  dry_run :: bool
  milestone_cache :: "(string \<times> int) list"
  label_cache :: "string list"
  world :: 'w
  calls :: "string list list"
  out :: "msg list"

type_synonym 'w backend = "'w \<Rightarrow> string list \<Rightarrow> outcome \<times> 'w"

text \<open>\<open>__init__\<close>: both caches start empty; nothing was called or printed.\<close>

definition init :: "string \<Rightarrow> bool \<Rightarrow> 'w \<Rightarrow> 'w creator" where
  "init r d w =
     \<lparr>repo = r, dry_run = d, milestone_cache = [], label_cache = [],
      world = w, calls = [], out = []\<rparr>"

definition print :: "msg \<Rightarrow> 'w creator \<Rightarrow> 'w creator" where
  "print m s = s\<lparr>out := out s @ [m]\<rparr>"

text \<open>Sequencing: an exception raised by the first step leaves the method; otherwise
  the second step runs on its value in the state it reached.\<close>

definition andThen ::
  "(py_error + 'a) \<times> 's \<Rightarrow> ('a \<Rightarrow> 's \<Rightarrow> (py_error + 'b) \<times> 's) \<Rightarrow> (py_error + 'b) \<times> 's" where
  "andThen m f = (case m of (Inl e, s) \<Rightarrow> (Inl e, s) | (Inr x, s) \<Rightarrow> f x s)"

subsection \<open>The methods\<close>

text \<open>\<open>run_gh_command\<close>: the stripped standard output when the process succeeds; an error
  line and \<open>None\<close> when it fails (the only exception the method catches); any other
  exception of \<open>subprocess.run\<close> leaves the method.\<close>

definition run_gh_command ::
  "'w backend \<Rightarrow> 'w creator \<Rightarrow> string list \<Rightarrow> (py_error + string option) \<times> 'w creator" where
  "run_gh_command gh s args =
     (case gh (world s) args of
        (Exit0 raw, w') \<Rightarrow> (Inr (Some (py_strip raw)), s\<lparr>world := w', calls := calls s @ [args]\<rparr>)
      | (CalledProcessError, w') \<Rightarrow>
          (Inr None, print GhError (s\<lparr>world := w', calls := calls s @ [args]\<rparr>))
      | (Raises e, w') \<Rightarrow> (Inl e, s\<lparr>world := w', calls := calls s @ [args]\<rparr>))"

definition milestone_lookup_args :: "string \<Rightarrow> string \<Rightarrow> string list" where
  \<open>milestone_lookup_args r t =
     [''api'', ''repos/'' @ r @ ''/milestones'', ''--jq'',
      ''.[] | select(.title == "'' @ t @ ''") | .number'']\<close>

definition milestone_create_args :: "string \<Rightarrow> string \<Rightarrow> string list" where
  "milestone_create_args r t =
     [''api'', ''repos/'' @ r @ ''/milestones'', ''-f'', ''title='' @ t, ''--jq'', ''.number'']"

definition cache_milestone :: "string \<Rightarrow> int \<Rightarrow> 'w creator \<Rightarrow> 'w creator" where
  "cache_milestone t n s = s\<lparr>milestone_cache := AList.update t n (milestone_cache s)\<rparr>"

text \<open>The truth value Python gives an \<open>Optional[str]\<close> in a condition: \<open>None\<close> and the
  empty string are false.\<close>

definition truthy :: "string option \<Rightarrow> bool" where
  "truthy x = (case x of None \<Rightarrow> False | Some v \<Rightarrow> v \<noteq> [])"

text \<open>The second half of \<open>create_or_get_milestone\<close>, reached when the lookup found
  nothing: the milestone is created and the number the tool prints is converted.\<close>

definition create_milestone ::
  "'w backend \<Rightarrow> 'w creator \<Rightarrow> string \<Rightarrow> (py_error + int option) \<times> 'w creator" where
  "create_milestone gh s t =
     andThen
       (run_gh_command gh (print (CreatingMilestone t) s) (milestone_create_args (repo s) t))
       (\<lambda>output s2.
          if truthy output then
            (case py_int (py_strip (the output)) of
               None \<Rightarrow> (Inl ValueError, s2)
             | Some n \<Rightarrow> (Inr (Some n), cache_milestone t n (print (CreatedMilestone t n) s2)))
          else (Inr None, s2))"

text \<open>\<open>create_or_get_milestone\<close>. \<open>Inr None\<close> is the method returning \<open>None\<close>;
  \<open>Inl ValueError\<close> is \<open>int(...)\<close> raising (or \<open>subprocess.run\<close> raising it).\<close>

definition create_or_get_milestone ::
  "'w backend \<Rightarrow> 'w creator \<Rightarrow> string \<Rightarrow> (py_error + int option) \<times> 'w creator" where
  "create_or_get_milestone gh s t =
     (case map_of (milestone_cache s) t of
        Some n \<Rightarrow> (Inr (Some n), s)
      | None \<Rightarrow>
          if dry_run s then (Inr (Some 1), cache_milestone t 1 (print (DryRunMilestone t) s))
          else
            andThen (run_gh_command gh s (milestone_lookup_args (repo s) t))
              (\<lambda>output s1.
                 if truthy output \<and> py_strip (the output) \<noteq> [] then
                   (case py_int (py_strip (the output)) of
                      None \<Rightarrow> (Inl ValueError, s1)
                    | Some n \<Rightarrow>
                        (Inr (Some n), cache_milestone t n (print (MilestoneExists t n) s1)))
                 else create_milestone gh s1 t))"

definition label_lookup_args :: "string \<Rightarrow> string list" where
  \<open>label_lookup_args l =
     [''label'', ''list'', ''--json'', ''name'', ''--jq'',
      ''.[] | select(.name == "'' @ l @ ''") | .name'']\<close>

definition label_create_args :: "string \<Rightarrow> string \<Rightarrow> string list" where
  "label_create_args l color = [''label'', ''create'', l, ''--color'', color]"

definition cache_label :: "string \<Rightarrow> 'w creator \<Rightarrow> 'w creator" where
  "cache_label l s = s\<lparr>label_cache := label_cache s @ [l]\<rparr>"

text \<open>The second half of \<open>create_label_if_missing\<close>, reached when the lookup did not
  print the label's name.\<close>

definition create_label ::
  "'w backend \<Rightarrow> 'w creator \<Rightarrow> string \<Rightarrow> string \<Rightarrow> (py_error + bool) \<times> 'w creator" where
  "create_label gh s l color =
     andThen (run_gh_command gh (print (CreatingLabel l) s) (label_create_args l color))
       (\<lambda>result s2.
          if result \<noteq> None then (Inr True, cache_label l (print (CreatedLabel l) s2))
          else (Inr False, s2))"

text \<open>\<open>create_label_if_missing\<close>.\<close>

definition create_label_if_missing ::
  "'w backend \<Rightarrow> 'w creator \<Rightarrow> string \<Rightarrow> string \<Rightarrow> (py_error + bool) \<times> 'w creator" where
  "create_label_if_missing gh s l color =
     (if l \<in> set (label_cache s) then (Inr True, s)
      else if dry_run s then (Inr True, cache_label l (print (DryRunLabel l) s))
      else
        andThen (run_gh_command gh s (label_lookup_args l))
          (\<lambda>output s1.
             if truthy output \<and> py_strip (the output) = l then (Inr True, cache_label l s1)
             else create_label gh s1 l color))"

definition default_color :: string where
  "default_color = ''0366d6''"

text \<open>The loop \<open>for label in labels\<close> of \<open>create_issue\<close>, over a list.\<close>

fun ensure_labels ::
  "'w backend \<Rightarrow> 'w creator \<Rightarrow> string list \<Rightarrow> (py_error + unit) \<times> 'w creator" where
  "ensure_labels gh s [] = (Inr (), s)"
| "ensure_labels gh s (l # ls) =
     (case create_label_if_missing gh s l default_color of
        (Inl e, s') \<Rightarrow> (Inl e, s')
      | (Inr ok, s') \<Rightarrow> ensure_labels gh (if ok then s' else print (LabelWarning l) s') ls)"

text \<open>The command \<open>create_issue\<close> builds: the label list joined by commas when there are
  labels, the milestone by its title when there is one.\<close>

definition issue_create_args ::
  "string \<Rightarrow> string \<Rightarrow> string list \<Rightarrow> string option \<Rightarrow> string list" where
  "issue_create_args t b ls m =
     [''issue'', ''create'', ''--title'', t, ''--body'', b]
     @ (if ls \<noteq> [] then [''--label'', join '','' ls] else [])
     @ (case m of
          None \<Rightarrow> []
        | Some mt \<Rightarrow> if mt \<noteq> [] then [''--milestone'', mt] else [])"

text \<open>The part of \<open>create_issue\<close> after the milestone has been dealt with. Iterating over
  \<open>labels\<close> raises \<open>TypeError\<close> when it is \<open>None\<close>. In a live run the command is built and
  the progress line printed, then \<open>subprocess.run\<close> raises \<open>TypeError\<close> when the body is
  \<open>None\<close>, since an argument must be a string: no process is started, and the call,
  whose arguments are not all strings, is not recorded in \<open>calls\<close>. The dry run does
  not use the body.\<close>

definition submit_issue ::
  "'w backend \<Rightarrow> 'w creator \<Rightarrow> string \<Rightarrow> issue_data \<Rightarrow> (py_error + bool) \<times> 'w creator" where
  "submit_issue gh s t i =
     (case labels i of
        None \<Rightarrow> (Inl TypeError, s)
      | Some ls \<Rightarrow>
          andThen (ensure_labels gh s ls)
            (\<lambda>_ s1.
               if dry_run s1 then
                 (Inr True, print (DryRunIssue t (join '', '' ls) (milestone i)) s1)
               else
                 (case body i of
                    None \<Rightarrow> (Inl TypeError, print CreatingIssue s1)
                  | Some b \<Rightarrow>
                      andThen
                        (run_gh_command gh (print CreatingIssue s1)
                           (issue_create_args t b ls (milestone i)))
                        (\<lambda>output s2.
                           if truthy output then (Inr True, print (CreatedIssue (the output)) s2)
                           else (Inr False, print FailedIssue s2)))))"

text \<open>\<open>create_issue\<close>.\<close>

definition create_issue ::
  "'w backend \<Rightarrow> 'w creator \<Rightarrow> issue_data \<Rightarrow> (py_error + bool) \<times> 'w creator" where
  "create_issue gh s i =
     (case title i of
        None \<Rightarrow> (Inr False, print SkippingNoTitle s)
      | Some t \<Rightarrow>
          if t = [] then (Inr False, print SkippingNoTitle s)
          else
            (let s1 = print (Processing t) s in
             case milestone i of
               None \<Rightarrow> submit_issue gh s1 t i
             | Some m \<Rightarrow>
                 if m = [] then submit_issue gh s1 t i
                 else
                   andThen (create_or_get_milestone gh s1 m)
                     (\<lambda>milestone_number s2.
                        case milestone_number of
                          None \<Rightarrow> (Inr False, print (MilestoneFailed m) s2)
                        | Some n \<Rightarrow>
                            if n = 0 then (Inr False, print (MilestoneFailed m) s2)
                            else submit_issue gh s2 t i)))"

text \<open>The loop \<open>for issue in issues\<close> of \<open>process_yaml\<close> with its two counters.\<close>

fun issue_loop ::
  "'w backend \<Rightarrow> 'w creator \<Rightarrow> nat \<Rightarrow> nat \<Rightarrow> issue_data list \<Rightarrow> (py_error + nat \<times> nat) \<times> 'w creator"
where
  "issue_loop gh s created failed [] = (Inr (created, failed), s)"
| "issue_loop gh s created failed (i # is) =
     (case create_issue gh s i of
        (Inl e, s') \<Rightarrow> (Inl e, s')
      | (Inr ok, s') \<Rightarrow>
          if ok then issue_loop gh s' (created + 1) failed is
          else issue_loop gh s' created (failed + 1) is)"

text \<open>What \<open>data.get("issues", [])\<close> finds in a mapping: the key is absent (the default
  \<open>[]\<close> is returned), its value is null (\<open>None\<close>), or it is a list of issue records. What
  \<open>yaml.safe_load\<close> gives: an empty document loads as \<open>None\<close>, a document may also be a
  scalar or a sequence, none of which has a method \<open>get\<close>, and a mapping is the expected
  shape. A value of \<open>issues\<close> that is not a list of mappings is outside the model.\<close>

datatype issues_field = Absent | Null | Issues "issue_data list"

datatype document = EmptyDoc | ScalarOrSeqDoc | MappingDoc issues_field

text \<open>Opening and parsing the file either raises (caught by \<open>except Exception\<close>) or
  gives a document.\<close>

datatype loaded = LoadFails | Loaded document

text \<open>\<open>process_yaml\<close>.\<close>

definition process_yaml ::
  "'w backend \<Rightarrow> 'w creator \<Rightarrow> loaded \<Rightarrow> (py_error + unit) \<times> 'w creator" where
  "process_yaml gh s f =
     (let s0 = print (Banner (repo s) (dry_run s)) s in
      case f of
        LoadFails \<Rightarrow> (Inl (SystemExit 1), print LoadError s0)
      | Loaded EmptyDoc \<Rightarrow> (Inl AttributeError, s0)
      | Loaded ScalarOrSeqDoc \<Rightarrow> (Inl AttributeError, s0)
      | Loaded (MappingDoc Absent) \<Rightarrow> (Inr (), print NoIssuesFound s0)
      | Loaded (MappingDoc Null) \<Rightarrow> (Inr (), print NoIssuesFound s0)
      | Loaded (MappingDoc (Issues is)) \<Rightarrow>
          if is = [] then (Inr (), print NoIssuesFound s0)
          else
            (case issue_loop gh (print (Found (length is)) s0) 0 0 is of
               (Inl e, s') \<Rightarrow> (Inl e, s')
             | (Inr (created, failed), s') \<Rightarrow>
                 (let s1 = print (Summary (length is) created failed) s' in
                  (Inr (), print Footer (if dry_run s then print DryRunReminder s1 else s1)))))"

text \<open>\<open>main\<close>, after argument parsing: the tool is probed with \<open>gh --version\<close> (not through
  \<open>run_gh_command\<close>, so the probe is not in \<open>calls\<close>); \<open>CalledProcessError\<close> and
  \<open>FileNotFoundError\<close> are caught there, any other exception of the probe leaves \<open>main\<close>.
  Then the creator is built and run. The result is the exit status of the process:
  \<open>sys.exit(n)\<close> gives \<open>n\<close>, any other uncaught exception gives 1.\<close>

definition exit_status :: "py_error + unit \<Rightarrow> nat" where
  "exit_status r = (case r of Inr _ \<Rightarrow> 0 | Inl (SystemExit n) \<Rightarrow> n | Inl _ \<Rightarrow> 1)"

definition main ::
  "'w backend \<Rightarrow> 'w \<Rightarrow> bool \<Rightarrow> string \<Rightarrow> loaded \<Rightarrow> nat \<times> 'w creator" where
  "main gh w d r f =
     (case gh w [''--version''] of
        (Exit0 v, w') \<Rightarrow>
          (case process_yaml gh (init r d w') f of (res, s) \<Rightarrow> (exit_status res, s))
      | (CalledProcessError, w') \<Rightarrow> (1, print GhNotFound (init r d w'))
      | (Raises e, w') \<Rightarrow>
          if e = FileNotFoundError then (1, print GhNotFound (init r d w'))
          else (exit_status (Inl e), init r d w'))"

subsection \<open>Example inputs\<close>

text \<open>Backends used to run the model on concrete inputs: one on which every call does
  the same thing, one on which every \<open>gh label\<close> command fails while every other command
  prints \<open>7\<close>, one on which a milestone lookup prints nothing and a milestone creation
  prints \<open>abc\<close>, and one that raises \<open>ValueError\<close> for an argument with a NUL character,
  as \<open>subprocess.run\<close> does, and otherwise fails on a \<open>gh label\<close> command and prints \<open>7\<close>
  on any other.\<close>

definition gh_const :: "outcome \<Rightarrow> unit backend" where
  "gh_const r w a = (r, w)"

definition gh_labels_fail :: "unit backend" where
  "gh_labels_fail w a = (if take 1 a = [''label''] then CalledProcessError else Exit0 ''7'', w)"

definition gh_create_garbage :: "unit backend" where
  "gh_create_garbage w a = (if ''-f'' \<in> set a then Exit0 ''abc'' else Exit0 [], w)"

definition gh_nul_check :: "unit backend" where
  "gh_nul_check w a =
     (if \<exists>x\<in>set a. CHR 0x00 \<in> set x then Raises ValueError
      else if take 1 a = [''label''] then CalledProcessError
      else Exit0 ''7'', w)"

text \<open>Issue records: a complete one, one without a title, one whose \<open>labels\<close> key is null,
  one whose \<open>body\<close> key is null, and one whose title has a NUL character.\<close>

definition ex_issue :: issue_data where
  "ex_issue =
     \<lparr>title = Some ''T'', body = Some ''B'', labels = Some [''bug'', ''x''], milestone = Some ''M''\<rparr>"

definition ex_untitled :: issue_data where
  "ex_untitled =
     \<lparr>title = None, body = Some ''B'', labels = Some [''bug''], milestone = Some ''M''\<rparr>"

definition ex_null_labels :: issue_data where
  "ex_null_labels = \<lparr>title = Some ''N'', body = Some ''B'', labels = None, milestone = None\<rparr>"

definition ex_null_body :: issue_data where
  "ex_null_body = \<lparr>title = Some ''T'', body = None, labels = Some [''bug''], milestone = None\<rparr>"

definition ex_nul_title :: issue_data where
  "ex_nul_title =
     \<lparr>title = Some [CHR ''a'', CHR 0x00, CHR ''b''], body = Some ''B'', labels = Some [''bug''],
      milestone = None\<rparr>"

text \<open>A reply of 4301 digits.\<close>

definition long_reply :: string where
  "long_reply = replicate 4301 (CHR ''1'')"

subsection \<open>How the state changes over a run\<close>

text \<open>The summary lines among the printed lines: total, created, failed.\<close>

fun summaries :: "msg list \<Rightarrow> (nat \<times> nat \<times> nat) list" where
  "summaries [] = []"
| "summaries (Summary n c f # ms) = (n, c, f) # summaries ms"
| "summaries (_ # ms) = summaries ms"

text \<open>Predicates used to state what a method leaves alone. A command is \<open>other_call\<close>
  when it is a \<open>gh label\<close> or a \<open>gh issue\<close> command; it is an
  \<open>uncached_milestone_call\<close> of a state when it is the lookup or the creation of a
  milestone whose title is not in the cache of that state. \<open>grows s s'\<close>: from \<open>s\<close> to
  \<open>s'\<close> the repository and the mode are the same, both caches and the list of calls
  were only appended to, every new call is of one of these two kinds, and no summary
  line was printed.\<close>

definition other_call :: "string list \<Rightarrow> bool" where
  "other_call a = (take 1 a = [''label''] \<or> take 1 a = [''issue''])"

definition uncached_milestone_call :: "'w creator \<Rightarrow> string list \<Rightarrow> bool" where
  "uncached_milestone_call s a =
     (\<exists>m. map_of (milestone_cache s) m = None
        \<and> (a = milestone_lookup_args (repo s) m \<or> a = milestone_create_args (repo s) m))"

definition grows :: "'w creator \<Rightarrow> 'w creator \<Rightarrow> bool" where
  "grows s s' =
     (repo s' = repo s \<and> dry_run s' = dry_run s
      \<and> (\<exists>ms. milestone_cache s' = milestone_cache s @ ms)
      \<and> (\<exists>ls. label_cache s' = label_cache s @ ls)
      \<and> (\<exists>new. calls s' = calls s @ new
            \<and> list_all (\<lambda>a. other_call a \<or> uncached_milestone_call s a) new)
      \<and> summaries (out s') = summaries (out s))"

subsection \<open>Numeric replies\<close>

text \<open>A decimal integer numeral: an optional sign followed by one or more digits. What a
  call of the tool does is numeric when the process failed or the call raised, or the
  output is blank, or the output without the surrounding whitespace is such a numeral
  with no more digits than \<open>int\<close> converts.\<close>

definition is_decimal :: "string \<Rightarrow> bool" where
  "is_decimal s =
     (case s of
        [] \<Rightarrow> False
      | c # cs \<Rightarrow>
          if c = CHR ''-'' \<or> c = CHR ''+'' then cs \<noteq> [] \<and> list_all is_digit cs
          else list_all is_digit (c # cs))"

definition numeric_reply :: "outcome \<Rightarrow> bool" where
  "numeric_reply x =
     (case x of
        Exit0 raw \<Rightarrow>
          py_strip raw = []
          \<or> (is_decimal (py_strip raw) \<and> digit_count (py_strip raw) \<le> int_max_str_digits)
      | _ \<Rightarrow> True)"

subsection \<open>Notions used to state what a run does\<close>

text \<open>An issue is \<open>titled\<close> when its title is present and not empty, and \<open>well_formed\<close>
  when neither its \<open>labels\<close> nor its \<open>body\<close> is null. \<open>ids_nonzero\<close>: no cached milestone
  number is zero (zero is false in the test \<open>if not milestone_number\<close>). \<open>quiet s s'\<close>:
  \<open>s'\<close> is in dry-run mode, \<open>subprocess.run\<close> was not called between \<open>s\<close> and \<open>s'\<close> and the
  external tool is in the same state, and cached numbers stay nonzero.\<close>

definition titled :: "issue_data \<Rightarrow> bool" where
  "titled i = (case title i of None \<Rightarrow> False | Some t \<Rightarrow> t \<noteq> [])"

definition well_formed :: "issue_data \<Rightarrow> bool" where
  "well_formed i = (labels i \<noteq> None \<and> body i \<noteq> None)"

definition ids_nonzero :: "(string \<times> int) list \<Rightarrow> bool" where
  "ids_nonzero al = (0 \<notin> snd ` set al)"

definition quiet :: "'w creator \<Rightarrow> 'w creator \<Rightarrow> bool" where
  "quiet s s' = (dry_run s' \<and> calls s' = calls s \<and> world s' = world s
     \<and> (ids_nonzero (milestone_cache s) \<longrightarrow> ids_nonzero (milestone_cache s')))"

text \<open>What it means for every call of the tool to succeed: every call exits with status
  zero; a milestone lookup prints nothing or a number that \<open>int\<close> converts and that is not
  zero, a milestone creation prints such a number, and an issue creation prints
  something.\<close>

definition reads_as_number :: "string \<Rightarrow> bool" where
  "reads_as_number raw = (case py_int raw of None \<Rightarrow> False | Some n \<Rightarrow> n \<noteq> 0)"

definition calls_succeed :: "'w backend \<Rightarrow> bool" where
  "calls_succeed gh =
     ((\<forall>w a. \<exists>raw. fst (gh w a) = Exit0 raw)
      \<and> (\<forall>w r t raw. fst (gh w (milestone_lookup_args r t)) = Exit0 raw
            \<longrightarrow> py_strip raw = [] \<or> reads_as_number raw)
      \<and> (\<forall>w r t raw. fst (gh w (milestone_create_args r t)) = Exit0 raw \<longrightarrow> reads_as_number raw)
      \<and> (\<forall>w a raw. take 1 a = [''issue''] \<and> fst (gh w a) = Exit0 raw \<longrightarrow> py_strip raw \<noteq> []))"

subsection \<open>Frame lemmas\<close>

lemma andThen_simps [simp]:
  "andThen (Inl e, s) f = (Inl e, s)" "andThen (Inr x, s) f = f x s"
  by (simp_all add: andThen_def)

lemma summaries_append [simp]: "summaries (xs @ ys) = summaries xs @ summaries ys"
  by (induction xs rule: summaries.induct) simp_all

lemma print_simps [simp]:
  "repo (print m s) = repo s" "dry_run (print m s) = dry_run s"
  "milestone_cache (print m s) = milestone_cache s" "label_cache (print m s) = label_cache s"
  "world (print m s) = world s" "calls (print m s) = calls s" "out (print m s) = out s @ [m]"
  by (simp_all add: print_def)

lemma cache_milestone_simps [simp]:
  "repo (cache_milestone t n s) = repo s" "dry_run (cache_milestone t n s) = dry_run s"
  "milestone_cache (cache_milestone t n s) = AList.update t n (milestone_cache s)"
  "label_cache (cache_milestone t n s) = label_cache s"
  "world (cache_milestone t n s) = world s" "calls (cache_milestone t n s) = calls s"
  "out (cache_milestone t n s) = out s"
  by (simp_all add: cache_milestone_def)

lemma cache_label_simps [simp]:
  "repo (cache_label l s) = repo s" "dry_run (cache_label l s) = dry_run s"
  "milestone_cache (cache_label l s) = milestone_cache s"
  "label_cache (cache_label l s) = label_cache s @ [l]"
  "world (cache_label l s) = world s" "calls (cache_label l s) = calls s"
  "out (cache_label l s) = out s"
  by (simp_all add: cache_label_def)

lemma truthy_simps [simp]: "truthy None = False" "truthy (Some v) = (v \<noteq> [])"
  by (simp_all add: truthy_def)

lemma update_fresh: "map_of al k = None \<Longrightarrow> AList.update k v al = al @ [(k, v)]"
  by (induction al) (auto split: if_splits)

lemma run_gh_command_frame:
  assumes "run_gh_command gh s args = (r, s')"
  shows "repo s' = repo s \<and> dry_run s' = dry_run s \<and> milestone_cache s' = milestone_cache s
    \<and> label_cache s' = label_cache s \<and> calls s' = calls s @ [args]
    \<and> summaries (out s') = summaries (out s)"
  using assms by (auto simp: run_gh_command_def split: prod.splits outcome.splits)

lemma run_gh_command_result:
  assumes "run_gh_command gh s args = (r, s')"
  shows "r = (case fst (gh (world s) args) of
             Exit0 raw \<Rightarrow> Inr (Some (py_strip raw))
           | CalledProcessError \<Rightarrow> Inr None
           | Raises e \<Rightarrow> Inl e)"
  using assms by (auto simp: run_gh_command_def split: prod.splits outcome.splits)

lemma create_milestone_frame:
  assumes "create_milestone gh s t = (r, s')"
  shows "repo s' = repo s \<and> dry_run s' = dry_run s \<and> label_cache s' = label_cache s
    \<and> summaries (out s') = summaries (out s)
    \<and> calls s' = calls s @ [milestone_create_args (repo s) t]
    \<and> milestone_cache s' =
        (case r of Inr (Some n) \<Rightarrow> AList.update t n (milestone_cache s) | _ \<Rightarrow> milestone_cache s)"
proof (cases "run_gh_command gh (print (CreatingMilestone t) s) (milestone_create_args (repo s) t)")
  case (Pair res s2)
  note fr = run_gh_command_frame [OF Pair]
  show ?thesis
  proof (cases res)
    case (Inl e)
    then have "(r, s') = (Inl e, s2)" using assms by (simp add: create_milestone_def Pair)
    then show ?thesis using fr by auto
  next
    case (Inr v)
    then show ?thesis using assms fr
      by (auto simp: create_milestone_def Pair split: option.splits if_splits)
  qed
qed

lemma create_or_get_milestone_frame:
  assumes "create_or_get_milestone gh s t = (r, s')"
  shows "repo s' = repo s \<and> dry_run s' = dry_run s \<and> label_cache s' = label_cache s
    \<and> summaries (out s') = summaries (out s)
    \<and> (milestone_cache s' = milestone_cache s
        \<or> (\<exists>n. r = Inr (Some n) \<and> map_of (milestone_cache s) t = None
              \<and> milestone_cache s' = milestone_cache s @ [(t, n)]))
    \<and> (r = Inr None \<longrightarrow> milestone_cache s' = milestone_cache s)
    \<and> (\<exists>new. calls s' = calls s @ new
          \<and> set new \<subseteq> {milestone_lookup_args (repo s) t, milestone_create_args (repo s) t}
          \<and> (map_of (milestone_cache s) t \<noteq> None \<longrightarrow> new = [])
          \<and> (r = Inr None \<longrightarrow>
               new = [milestone_lookup_args (repo s) t, milestone_create_args (repo s) t]))"
proof (cases "map_of (milestone_cache s) t")
  case (Some n)
  then show ?thesis using assms by (auto simp: create_or_get_milestone_def)
next
  case None
  show ?thesis
  proof (cases "dry_run s")
    case True
    then show ?thesis using assms None by (auto simp: create_or_get_milestone_def update_fresh)
  next
    case False
    obtain res s1 where l: "run_gh_command gh s (milestone_lookup_args (repo s) t) = (res, s1)"
      by (cases "run_gh_command gh s (milestone_lookup_args (repo s) t)")
    note f1 = run_gh_command_frame [OF l]
    show ?thesis
    proof (cases res)
      case (Inl e)
      then have "(r, s') = (Inl e, s1)"
        using assms None False by (simp add: create_or_get_milestone_def l)
      then show ?thesis using f1 None by auto
    next
      case (Inr v)
      obtain r2 s2 where cm: "create_milestone gh s1 t = (r2, s2)"
        by (cases "create_milestone gh s1 t")
      note f2 = create_milestone_frame [OF cm]
      show ?thesis
      proof (cases "truthy v \<and> py_strip (the v) \<noteq> []")
        case True
        then show ?thesis using assms None False f1 Inr
          by (auto simp: create_or_get_milestone_def l update_fresh split: option.splits)
      next
        case nb: False
        then have "(r, s') = (r2, s2)"
          using assms None False Inr by (cases "truthy v") (simp_all add: create_or_get_milestone_def l cm)
        then show ?thesis using f1 f2 None
          by (auto simp: update_fresh split: sum.splits option.splits)
      qed
    qed
  qed
qed

lemma create_label_frame:
  assumes "create_label gh s l c = (r, s')"
  shows "repo s' = repo s \<and> dry_run s' = dry_run s \<and> milestone_cache s' = milestone_cache s
    \<and> summaries (out s') = summaries (out s)
    \<and> calls s' = calls s @ [label_create_args l c]
    \<and> label_cache s' = (if r = Inr True then label_cache s @ [l] else label_cache s)"
proof (cases "run_gh_command gh (print (CreatingLabel l) s) (label_create_args l c)")
  case (Pair res s2)
  note fr = run_gh_command_frame [OF Pair]
  show ?thesis
  proof (cases res)
    case (Inl e)
    then have "(r, s') = (Inl e, s2)" using assms by (simp add: create_label_def Pair)
    then show ?thesis using fr by auto
  next
    case (Inr v)
    then show ?thesis using assms fr by (auto simp: create_label_def Pair split: if_splits)
  qed
qed

lemma create_label_if_missing_frame:
  assumes "create_label_if_missing gh s l c = (r, s')"
  shows "repo s' = repo s \<and> dry_run s' = dry_run s \<and> milestone_cache s' = milestone_cache s
    \<and> summaries (out s') = summaries (out s)
    \<and> (label_cache s' = label_cache s
        \<or> (r = Inr True \<and> l \<notin> set (label_cache s) \<and> label_cache s' = label_cache s @ [l]))
    \<and> (r \<noteq> Inr True \<longrightarrow> label_cache s' = label_cache s)
    \<and> (\<exists>new. calls s' = calls s @ new
          \<and> set new \<subseteq> {label_lookup_args l, label_create_args l c})"
proof (cases "l \<in> set (label_cache s) \<or> dry_run s")
  case True
  then show ?thesis using assms by (auto simp: create_label_if_missing_def split: if_splits)
next
  case False
  obtain res s1 where lk: "run_gh_command gh s (label_lookup_args l) = (res, s1)"
    by (cases "run_gh_command gh s (label_lookup_args l)")
  note f1 = run_gh_command_frame [OF lk]
  show ?thesis
  proof (cases res)
    case (Inl e)
    then have "(r, s') = (Inl e, s1)"
      using assms False by (simp add: create_label_if_missing_def lk)
    then show ?thesis using f1 by auto
  next
    case (Inr v)
    obtain r2 s2 where cl: "create_label gh s1 l c = (r2, s2)" by (cases "create_label gh s1 l c")
    note f2 = create_label_frame [OF cl]
    show ?thesis
    proof (cases "truthy v \<and> py_strip (the v) = l")
      case True
      then have "(r, s') = (Inr True, cache_label l s1)"
        using assms False Inr by (simp add: create_label_if_missing_def lk)
      then show ?thesis using f1 False by auto
    next
      case nf: False
      then have "(r, s') = (r2, s2)"
        using assms False Inr by (cases "truthy v") (simp_all add: create_label_if_missing_def lk cl)
      then show ?thesis using f1 f2 False by (auto split: if_splits)
    qed
  qed
qed

lemma growsI:
  assumes "repo s' = repo s" and "dry_run s' = dry_run s"
    and "milestone_cache s' = milestone_cache s @ ms" and "label_cache s' = label_cache s @ ls"
    and "calls s' = calls s @ new"
    and "list_all (\<lambda>a. other_call a \<or> uncached_milestone_call s a) new"
    and "summaries (out s') = summaries (out s)"
  shows "grows s s'"
  using assms unfolding grows_def by blast

lemma grows_refl [simp]: "grows s s"
  by (simp add: grows_def)

lemma grows_print [simp]: "summaries [m] = [] \<Longrightarrow> grows s (print m s)"
  by (simp add: grows_def)

lemma map_of_append_None: "map_of (xs @ ys) k = None \<Longrightarrow> map_of xs k = None"
  by (simp add: map_add_def split: option.splits)

lemma uncached_mono:
  assumes "repo s' = repo s" and "milestone_cache s' = milestone_cache s @ ms"
    and "uncached_milestone_call s' a"
  shows "uncached_milestone_call s a"
  using assms unfolding uncached_milestone_call_def
  by (metis map_of_append_None)

lemma grows_trans:
  assumes "grows s s1" and "grows s1 s2"
  shows "grows s s2"
proof -
  from assms(1) obtain ms ls new where 1: "repo s1 = repo s" "dry_run s1 = dry_run s"
    "milestone_cache s1 = milestone_cache s @ ms" "label_cache s1 = label_cache s @ ls"
    "calls s1 = calls s @ new" "list_all (\<lambda>a. other_call a \<or> uncached_milestone_call s a) new"
    "summaries (out s1) = summaries (out s)"
    unfolding grows_def by blast
  from assms(2) obtain ms' ls' new' where 2: "repo s2 = repo s1" "dry_run s2 = dry_run s1"
    "milestone_cache s2 = milestone_cache s1 @ ms'" "label_cache s2 = label_cache s1 @ ls'"
    "calls s2 = calls s1 @ new'" "list_all (\<lambda>a. other_call a \<or> uncached_milestone_call s1 a) new'"
    "summaries (out s2) = summaries (out s1)"
    unfolding grows_def by blast
  have "list_all (\<lambda>a. other_call a \<or> uncached_milestone_call s a) new'"
    using 2(6) uncached_mono [OF 1(1) 1(3)] by (auto simp: list_all_iff)
  then have "list_all (\<lambda>a. other_call a \<or> uncached_milestone_call s a) (new @ new')"
    using 1(6) by simp
  then show ?thesis
    using 1 2 by (intro growsI [where ms = "ms @ ms'" and ls = "ls @ ls'" and new = "new @ new'"]) simp_all
qed

lemma other_call_args [simp]:
  "other_call (label_lookup_args l)" "other_call (label_create_args l c)"
  "other_call (issue_create_args t b ls m)"
  by (simp_all add: other_call_def label_lookup_args_def label_create_args_def issue_create_args_def)

lemma grows_create_or_get_milestone:
  assumes "create_or_get_milestone gh s t = (r, s')"
  shows "grows s s'"
proof -
  note fr = create_or_get_milestone_frame [OF assms]
  from fr obtain new where n: "calls s' = calls s @ new"
    "set new \<subseteq> {milestone_lookup_args (repo s) t, milestone_create_args (repo s) t}"
    "map_of (milestone_cache s) t \<noteq> None \<longrightarrow> new = []" by blast
  have la: "list_all (\<lambda>a. other_call a \<or> uncached_milestone_call s a) new"
  proof (cases "map_of (milestone_cache s) t")
    case None
    then show ?thesis using n(2) by (auto simp: list_all_iff uncached_milestone_call_def)
  next
    case (Some k)
    then show ?thesis using n(3) by simp
  qed
  from fr obtain ms where "milestone_cache s' = milestone_cache s @ ms" by auto
  then show ?thesis
    using fr n(1) la by (intro growsI [where ms = ms and ls = "[]" and new = new]) simp_all
qed

lemma grows_create_label_if_missing:
  assumes "create_label_if_missing gh s l c = (r, s')"
  shows "grows s s'"
proof -
  note fr = create_label_if_missing_frame [OF assms]
  from fr obtain new where n: "calls s' = calls s @ new"
    "set new \<subseteq> {label_lookup_args l, label_create_args l c}" by blast
  have la: "list_all (\<lambda>a. other_call a \<or> uncached_milestone_call s a) new"
    using n(2) by (auto simp: list_all_iff)
  from fr obtain ls where "label_cache s' = label_cache s @ ls" by auto
  then show ?thesis
    using fr n(1) la by (intro growsI [where ms = "[]" and ls = ls and new = new]) simp_all
qed

lemma grows_ensure_labels:
  assumes "ensure_labels gh s ls = (r, s')"
  shows "grows s s'"
  using assms
proof (induction ls arbitrary: s)
  case Nil
  then show ?case by simp
next
  case (Cons l ls)
  obtain r1 s1 where c: "create_label_if_missing gh s l default_color = (r1, s1)"
    by (cases "create_label_if_missing gh s l default_color")
  have g1: "grows s s1" by (rule grows_create_label_if_missing [OF c])
  show ?case
  proof (cases r1)
    case (Inl e)
    then show ?thesis using Cons.prems c g1 by simp
  next
    case (Inr ok)
    let ?s2 = "if ok then s1 else print (LabelWarning l) s1"
    have g2: "grows s1 ?s2" by simp
    have "ensure_labels gh ?s2 ls = (r, s')" using Cons.prems c Inr by simp
    from grows_trans [OF grows_trans [OF g1 g2] Cons.IH [OF this]] show ?thesis .
  qed
qed

lemma grows_run_other:
  assumes "run_gh_command gh s args = (r, s')" and "other_call args"
  shows "grows s s'"
  using run_gh_command_frame [OF assms(1)] assms(2) by (simp add: grows_def)

lemma grows_submit_issue:
  assumes "submit_issue gh s t i = (r, s')"
  shows "grows s s'"
proof (cases "labels i")
  case None
  then show ?thesis using assms by (simp add: submit_issue_def)
next
  case (Some ls)
  obtain r1 s1 where el: "ensure_labels gh s ls = (r1, s1)" by (cases "ensure_labels gh s ls")
  have g1: "grows s s1" by (rule grows_ensure_labels [OF el])
  show ?thesis
  proof (cases r1)
    case (Inl e)
    then show ?thesis using assms Some el g1 by (simp add: submit_issue_def)
  next
    case (Inr u)
    show ?thesis
    proof (cases "dry_run s1")
      case True
      then have "s' = print (DryRunIssue t (join '', '' ls) (milestone i)) s1"
        using assms Some el Inr by (simp add: submit_issue_def)
      then show ?thesis using grows_trans [OF g1 grows_print] by simp
    next
      case False
      show ?thesis
      proof (cases "body i")
        case None
        then have "s' = print CreatingIssue s1"
          using assms Some el Inr False by (simp add: submit_issue_def)
        then show ?thesis using grows_trans [OF g1 grows_print] by simp
      next
        case b: (Some b)
        obtain res s2 where rn: "run_gh_command gh (print CreatingIssue s1)
            (issue_create_args t b ls (milestone i)) = (res, s2)"
          by (cases "run_gh_command gh (print CreatingIssue s1) (issue_create_args t b ls (milestone i))")
        have g2: "grows s1 s2"
          using grows_trans [OF grows_print grows_run_other [OF rn]] by simp
        have "s' = s2 \<or> s' = print (CreatedIssue (the (projr res))) s2 \<or> s' = print FailedIssue s2"
          using assms Some el Inr False b rn
          by (cases res) (auto simp: submit_issue_def split: if_splits)
        then show ?thesis
          using grows_trans [OF g1 g2] grows_trans [OF grows_trans [OF g1 g2] grows_print] by auto
      qed
    qed
  qed
qed

lemma grows_create_issue:
  assumes "create_issue gh s i = (r, s')"
  shows "grows s s'"
proof (cases "title i = None \<or> title i = Some []")
  case True
  then show ?thesis using assms by (auto simp: create_issue_def)
next
  case False
  then obtain t where t: "title i = Some t" "t \<noteq> []" by auto
  let ?s1 = "print (Processing t) s"
  show ?thesis
  proof (cases "milestone i = None \<or> milestone i = Some []")
    case True
    then have sb: "submit_issue gh ?s1 t i = (r, s')"
      using assms t by (auto simp: create_issue_def)
    then show ?thesis using grows_trans [OF grows_print grows_submit_issue [OF sb]] by simp
  next
    case False
    then obtain m where m: "milestone i = Some m" "m \<noteq> []" by auto
    obtain r2 s2 where c: "create_or_get_milestone gh ?s1 m = (r2, s2)"
      by (cases "create_or_get_milestone gh ?s1 m")
    have g2: "grows s s2"
      using grows_trans [OF grows_print grows_create_or_get_milestone [OF c]] by simp
    obtain r3 s3 where sb: "submit_issue gh s2 t i = (r3, s3)" by (cases "submit_issue gh s2 t i")
    have g3: "grows s s3" using grows_trans [OF g2 grows_submit_issue [OF sb]] .
    have "s' = s2 \<or> s' = print (MilestoneFailed m) s2 \<or> s' = s3"
      using assms t m c sb
      by (cases r2) (auto simp: create_issue_def split: option.splits if_splits)
    then show ?thesis using g2 g3 grows_trans [OF g2 grows_print] by auto
  qed
qed

lemma grows_issue_loop:
  assumes "issue_loop gh s c f is = (r, s')"
  shows "grows s s'"
  using assms
proof (induction "is" arbitrary: s c f)
  case Nil
  then show ?case by simp
next
  case (Cons i "is")
  obtain r1 s1 where ci: "create_issue gh s i = (r1, s1)" by (cases "create_issue gh s i")
  note g1 = grows_create_issue [OF ci]
  show ?case
  proof (cases r1)
    case (Inl e)
    then show ?thesis using Cons.prems ci g1 by simp
  next
    case (Inr ok)
    then have "issue_loop gh s1 (if ok then c + 1 else c) (if ok then f else f + 1) is = (r, s')"
      using Cons.prems ci by (simp split: if_splits)
    from Cons.IH [OF this] g1 show ?thesis by (rule grows_trans [rotated])
  qed
qed

lemma milestone_args_inject [simp]:
  "(milestone_lookup_args r t = milestone_lookup_args r m) = (t = m)"
  "(milestone_create_args r t = milestone_create_args r m) = (t = m)"
  "milestone_lookup_args r t \<noteq> milestone_create_args r m"
  "milestone_create_args r t \<noteq> milestone_lookup_args r m"
  by (simp_all add: milestone_lookup_args_def milestone_create_args_def)

lemma other_call_not_milestone [simp]:
  "\<not> other_call (milestone_lookup_args r t)" "\<not> other_call (milestone_create_args r t)"
  by (simp_all add: other_call_def milestone_lookup_args_def milestone_create_args_def)

lemma resolved_milestone_cached:
  assumes "create_or_get_milestone gh s t = (Inr (Some n), s')"
  shows "map_of (milestone_cache s') t = Some n"
proof (cases "map_of (milestone_cache s) t")
  case (Some k)
  then show ?thesis using assms by (simp add: create_or_get_milestone_def)
next
  case None
  from create_or_get_milestone_frame [OF assms] None
  have "milestone_cache s' = milestone_cache s
      \<or> milestone_cache s' = milestone_cache s @ [(t, n)]" by auto
  moreover have "milestone_cache s' \<noteq> milestone_cache s"
  proof (cases "dry_run s")
    case True
    then show ?thesis using assms None by (auto simp: create_or_get_milestone_def update_fresh)
  next
    case False
    obtain res s1 where l: "run_gh_command gh s (milestone_lookup_args (repo s) t) = (res, s1)"
      by (cases "run_gh_command gh s (milestone_lookup_args (repo s) t)")
    note f1 = run_gh_command_frame [OF l]
    obtain r2 s2 where cm: "create_milestone gh s1 t = (r2, s2)"
      by (cases "create_milestone gh s1 t")
    note f2 = create_milestone_frame [OF cm]
    show ?thesis
    proof (cases res)
      case (Inl e)
      then show ?thesis using assms None False by (simp add: create_or_get_milestone_def l)
    next
      case (Inr v)
      show ?thesis
      proof (cases "truthy v \<and> py_strip (the v) \<noteq> []")
        case True
        then show ?thesis using assms None False Inr f1
          by (auto simp: create_or_get_milestone_def l update_fresh split: option.splits)
      next
        case nb: False
        then have "(Inr (Some n), s') = (r2, s2)"
          using assms None False Inr by (cases "truthy v") (simp_all add: create_or_get_milestone_def l cm)
        then show ?thesis using f1 f2 None by (auto simp: update_fresh)
      qed
    qed
  qed
  ultimately show ?thesis using None by (auto simp: map_add_def)
qed

lemma grows_keeps_cached:
  assumes "grows s s'" and "map_of (milestone_cache s) t = Some n"
  shows "map_of (milestone_cache s') t = Some n
    \<and> (\<exists>new. calls s' = calls s @ new \<and> milestone_lookup_args (repo s) t \<notin> set new
          \<and> milestone_create_args (repo s) t \<notin> set new)"
proof -
  from assms(1) obtain ms new where g: "milestone_cache s' = milestone_cache s @ ms"
    "calls s' = calls s @ new" "list_all (\<lambda>a. other_call a \<or> uncached_milestone_call s a) new"
    unfolding grows_def by blast
  have "map_of (milestone_cache s') t = Some n"
    using g(1) assms(2) by (simp add: map_add_def)
  moreover have "milestone_lookup_args (repo s) t \<notin> set new"
    using g(3) assms(2) by (auto simp: list_all_iff uncached_milestone_call_def)
  moreover have "milestone_create_args (repo s) t \<notin> set new"
    using g(3) assms(2) by (auto simp: list_all_iff uncached_milestone_call_def)
  ultimately show ?thesis using g(2) by blast
qed

subsection \<open>Failed resolutions are not cached\<close>



subsection \<open>One resolution per milestone title\<close>

text \<open>
  Claim C2, as stated, bounds the number of remote lookup-or-create sequences for one
  milestone title by one per run. The code caches only a resolution that succeeded, so
  when the tool fails, two issues that share the title \<open>M\<close> make it look \<open>M\<close> up twice
  (and try to create it twice).
\<close>

theorem shared_milestone_looked_up_twice:
  "count_list (calls (snd (process_yaml (gh_const CalledProcessError) (init ''r'' False ())
       (Loaded (MappingDoc (Issues [ex_issue, ex_issue]))))))
     (milestone_lookup_args ''r'' ''M'') = 2"
  by (simp add: process_yaml_def create_issue_def create_or_get_milestone_def
      create_milestone_def run_gh_command_def gh_const_def init_def print_def ex_issue_def
      milestone_lookup_args_def milestone_create_args_def)

text \<open>
  Claim C2, amended. A resolution that returns a number leaves the title cached with
  that number. From any state in which a title is cached, \<open>create_or_get_milestone\<close>
  returns the cached number and leaves the state as it is (no command runs), and
  whatever issues remain in the batch, the title stays cached with the same number
  and none of the commands run for them is the lookup or the creation of that
  milestone. So the remote sequence for a title succeeds at most once per run.
\<close>

theorem cached_milestone_is_reused:
  "(fst (create_or_get_milestone gh s t) = Inr (Some n)
      \<longrightarrow> map_of (milestone_cache (snd (create_or_get_milestone gh s t))) t = Some n)
   \<and> (map_of (milestone_cache s) t = Some n
      \<longrightarrow> create_or_get_milestone gh s t = (Inr (Some n), s)
        \<and> map_of (milestone_cache (snd (issue_loop gh s created failed rest))) t = Some n
        \<and> (\<exists>new. calls (snd (issue_loop gh s created failed rest)) = calls s @ new
              \<and> milestone_lookup_args (repo s) t \<notin> set new
              \<and> milestone_create_args (repo s) t \<notin> set new))"
proof -
  have a: "fst (create_or_get_milestone gh s t) = Inr (Some n)
      \<longrightarrow> map_of (milestone_cache (snd (create_or_get_milestone gh s t))) t = Some n"
    using resolved_milestone_cached [of gh s t n "snd (create_or_get_milestone gh s t)"]
    by (cases "create_or_get_milestone gh s t") simp
  have g: "grows s (snd (issue_loop gh s created failed rest))"
    by (rule grows_issue_loop [of gh s created failed rest "fst (issue_loop gh s created failed rest)"]) simp
  show ?thesis
    using a grows_keeps_cached [OF g, of t n] by (simp add: create_or_get_milestone_def)
qed

theorem cached_milestone_is_reused_witness:
  "fst (create_or_get_milestone (gh_const (Exit0 ''7'')) (init ''r'' False ()) ''M'') = Inr (Some 7)
   \<and> map_of (milestone_cache (snd (create_or_get_milestone (gh_const (Exit0 ''7''))
         (init ''r'' False ()) ''M''))) ''M'' = Some 7
   \<and> map_of (milestone_cache (cache_milestone ''M'' 7 (init ''r'' False ()))) ''M'' = Some 7
   \<and> create_or_get_milestone (gh_const CalledProcessError)
         (cache_milestone ''M'' 7 (init ''r'' False ())) ''M''
       = (Inr (Some 7), cache_milestone ''M'' 7 (init ''r'' False ()))
   \<and> map_of (milestone_cache (snd (issue_loop (gh_const CalledProcessError)
         (cache_milestone ''M'' 7 (init ''r'' False ())) 0 0 [ex_issue, ex_issue]))) ''M'' = Some 7"
proof -
  have ev: "py_strip ''7'' = ''7''" "py_int ''7'' = Some 7"
    by (simp_all add: py_strip_def py_int_def is_space_def is_digit_def digit_val_def
        digit_count_def int_max_str_digits_def)
  have h1: "fst (create_or_get_milestone (gh_const (Exit0 ''7'')) (init ''r'' False ()) ''M'')
      = Inr (Some 7)"
    by (simp add: create_or_get_milestone_def run_gh_command_def gh_const_def init_def ev)
  have h2: "map_of (milestone_cache (cache_milestone ''M'' 7 (init ''r'' False () :: unit creator))) ''M''
      = Some 7"
    by (simp add: init_def)
  note T1 = cached_milestone_is_reused
    [of "gh_const (Exit0 ''7'')" "init ''r'' False ()" "''M''" 7 0 0 "[]"]
  note T2 = cached_milestone_is_reused
    [of "gh_const CalledProcessError" "cache_milestone ''M'' 7 (init ''r'' False ())" "''M''" 7 0 0
      "[ex_issue, ex_issue]"]
  from T1 h1 have c1: "map_of (milestone_cache (snd (create_or_get_milestone (gh_const (Exit0 ''7''))
         (init ''r'' False ()) ''M''))) ''M'' = Some 7"
    by blast
  from T2 h2 have c2: "create_or_get_milestone (gh_const CalledProcessError)
        (cache_milestone ''M'' 7 (init ''r'' False ())) ''M''
       = (Inr (Some 7), cache_milestone ''M'' 7 (init ''r'' False ()))
     \<and> map_of (milestone_cache (snd (issue_loop (gh_const CalledProcessError)
         (cache_milestone ''M'' 7 (init ''r'' False ())) 0 0 [ex_issue, ex_issue]))) ''M'' = Some 7"
    by blast
  show ?thesis using h1 h2 c1 c2 by simp
qed

subsection \<open>Exit status\<close>

lemma main_exit_status:
  "fst (main gh w d r f) =
     (case fst (gh w [''--version'']) of
        Exit0 v \<Rightarrow> exit_status (fst (process_yaml gh (init r d (snd (gh w [''--version'']))) f))
      | CalledProcessError \<Rightarrow> 1
      | Raises e \<Rightarrow> if e = FileNotFoundError then 1 else exit_status (Inl e))"
  by (simp add: main_def split: prod.splits outcome.splits)

lemma normal_completion_exits_zero:
  "fst (gh w [''--version'']) = Exit0 v
   \<Longrightarrow> fst (process_yaml gh (init r d (snd (gh w [''--version'']))) f) = Inr ()
   \<Longrightarrow> fst (main gh w d r f) = 0"
  by (simp add: main_exit_status exit_status_def)

lemma load_failure_exits_one:
  "process_yaml gh s LoadFails = (Inl (SystemExit 1), print LoadError (print (Banner (repo s) (dry_run s)) s))"
  "calls (snd (process_yaml gh s LoadFails)) = calls s"
  "fst (gh w [''--version'']) = Exit0 v \<Longrightarrow> fst (main gh w d r LoadFails) = 1"
  by (simp_all add: process_yaml_def main_exit_status exit_status_def)

subsection \<open>No issues in the document\<close>

text \<open>
  Claim C6, as stated, fails in two ways. For a mapping with an empty \<open>issues\<close> list the
  run prints the banner and the line saying that no issues were found, and returns
  before the summary: no created or failed count is printed. And for an empty
  document, in which the collection is absent as well, \<open>yaml.safe_load\<close> gives \<open>None\<close>,
  \<open>data.get\<close> raises \<open>AttributeError\<close> and the process ends with status 1.
\<close>

theorem empty_collection_prints_no_summary:
  "out (snd (process_yaml (gh_const (Exit0 ''7'')) (init ''r'' False ())
       (Loaded (MappingDoc (Issues []))))) = [Banner ''r'' False, NoIssuesFound]
   \<and> fst (process_yaml (gh_const (Exit0 ''7'')) (init ''r'' False ()) (Loaded EmptyDoc))
       = Inl AttributeError
   \<and> exit_status (Inl AttributeError) = 1"
  by (simp add: process_yaml_def init_def exit_status_def)

text \<open>
  Claim C6, amended. For a document that is a mapping in which the \<open>issues\<close> collection
  is absent, null or empty, \<open>process_yaml\<close> prints the banner and the line saying that no
  issues were found and returns normally: no command is handed to the external tool,
  its state is untouched and no summary line is printed. When the probe of the tool
  succeeds, \<open>main\<close> on such a document ends with exit status zero, with no command run
  and these two lines as its whole output.
\<close>

theorem empty_issue_collection:
  assumes "fld = Absent \<or> fld = Null \<or> fld = Issues []"
  shows "process_yaml gh s (Loaded (MappingDoc fld))
       = (Inr (), print NoIssuesFound (print (Banner (repo s) (dry_run s)) s))
     \<and> calls (snd (process_yaml gh s (Loaded (MappingDoc fld)))) = calls s
     \<and> world (snd (process_yaml gh s (Loaded (MappingDoc fld)))) = world s
     \<and> summaries (out (snd (process_yaml gh s (Loaded (MappingDoc fld))))) = summaries (out s)
     \<and> ((\<exists>v. fst (gh w [''--version'']) = Exit0 v)
        \<longrightarrow> fst (main gh w d r (Loaded (MappingDoc fld))) = 0
          \<and> calls (snd (main gh w d r (Loaded (MappingDoc fld)))) = []
          \<and> out (snd (main gh w d r (Loaded (MappingDoc fld)))) = [Banner r d, NoIssuesFound])"
proof -
  have p: "process_yaml gh s (Loaded (MappingDoc fld))
       = (Inr (), print NoIssuesFound (print (Banner (repo s) (dry_run s)) s))" for s :: "'a creator"
    using assms by (auto simp: process_yaml_def)
  have m: "(\<exists>v. fst (gh w [''--version'']) = Exit0 v)
        \<longrightarrow> fst (main gh w d r (Loaded (MappingDoc fld))) = 0
          \<and> calls (snd (main gh w d r (Loaded (MappingDoc fld)))) = []
          \<and> out (snd (main gh w d r (Loaded (MappingDoc fld)))) = [Banner r d, NoIssuesFound]"
    by (auto simp: main_def p exit_status_def init_def split: prod.splits)
  show ?thesis using m by (simp add: p)
qed

theorem empty_issue_collection_witness:
  "process_yaml (gh_const (Exit0 ''7'')) (init ''r'' False ()) (Loaded (MappingDoc Absent))
       = (Inr (), print NoIssuesFound (print (Banner ''r'' False) (init ''r'' False ())))
   \<and> fst (gh_const (Exit0 ''7'') () [''--version'']) = Exit0 ''7''
   \<and> fst (main (gh_const (Exit0 ''7'')) () False ''r'' (Loaded (MappingDoc Absent))) = 0
   \<and> calls (snd (main (gh_const (Exit0 ''7'')) () False ''r'' (Loaded (MappingDoc Absent)))) = []
   \<and> out (snd (main (gh_const (Exit0 ''7'')) () False ''r'' (Loaded (MappingDoc Absent))))
       = [Banner ''r'' False, NoIssuesFound]"
proof -
  have h: "Absent = Absent \<or> Absent = Null \<or> Absent = Issues []" by simp
  have g: "fst (gh_const (Exit0 ''7'') () [''--version'']) = Exit0 ''7''" by (simp add: gh_const_def)
  then have g': "\<exists>v. fst (gh_const (Exit0 ''7'') () [''--version'']) = Exit0 v" by blast
  note T = empty_issue_collection
    [OF h, of "gh_const (Exit0 ''7'')" "init ''r'' False ()" "()" False "''r''"]
  from T g' have "process_yaml (gh_const (Exit0 ''7'')) (init ''r'' False ()) (Loaded (MappingDoc Absent))
       = (Inr (), print NoIssuesFound (print (Banner (repo (init ''r'' False () :: unit creator))
            (dry_run (init ''r'' False () :: unit creator))) (init ''r'' False ())))"
    "fst (main (gh_const (Exit0 ''7'')) () False ''r'' (Loaded (MappingDoc Absent))) = 0"
    "calls (snd (main (gh_const (Exit0 ''7'')) () False ''r'' (Loaded (MappingDoc Absent)))) = []"
    "out (snd (main (gh_const (Exit0 ''7'')) () False ''r'' (Loaded (MappingDoc Absent))))
       = [Banner ''r'' False, NoIssuesFound]"
    by blast+
  then show ?thesis using g by (simp add: init_def)
qed

subsection \<open>Uncaught exceptions\<close>

text \<open>
  Claim C7 says that the exit status is non-zero only when the document fails to load
  or the external tool is missing. The code at two inputs where neither is the case:
  with the tool present, an empty document loads (as \<open>None\<close>) and the run ends with
  status 1, having run no command, because \<open>data.get\<close> raises; and a document with one
  issue that names a milestone ends with status 1 when the milestone lookup prints
  \<open>abc\<close>, because \<open>int\<close> raises.
\<close>

theorem uncaught_exception_exits_nonzero:
  "fst (main (gh_const (Exit0 ''7'')) () False ''r'' (Loaded EmptyDoc)) = 1
   \<and> calls (snd (main (gh_const (Exit0 ''7'')) () False ''r'' (Loaded EmptyDoc))) = []
   \<and> fst (main (gh_const (Exit0 ''abc'')) () False ''r'' (Loaded (MappingDoc (Issues [ex_issue])))) = 1"
proof -
  have ev: "py_strip ''abc'' = ''abc''" "py_int ''abc'' = None"
    by (simp_all add: py_strip_def py_int_def is_space_def is_digit_def digit_count_def
        int_max_str_digits_def)
  show ?thesis
    by (simp add: main_def process_yaml_def create_issue_def create_or_get_milestone_def
        run_gh_command_def gh_const_def init_def exit_status_def ex_issue_def ev)
qed

subsection \<open>Stripping and converting\<close>

lemma strip_trailing_keeps_head:
  assumes "a = [] \<or> \<not> P (hd a)"
  shows "dropWhile P (rev (dropWhile P (rev a))) = rev (dropWhile P (rev a))"
proof -
  let ?b = "rev (dropWhile P (rev a))"
  have a: "a = ?b @ rev (takeWhile P (rev a))"
    by (metis rev_append rev_rev_ident takeWhile_dropWhile_id)
  show ?thesis
  proof (cases "?b = []")
    case True
    show ?thesis unfolding True by simp
  next
    case False
    then have "hd a = hd ?b" using a by (metis hd_append2)
    moreover have "a \<noteq> []" using False by auto
    ultimately have "\<not> P (hd ?b)" using assms by simp
    then show ?thesis using False by (simp add: dropWhile_eq_self_iff)
  qed
qed

lemma py_strip_idem [simp]: "py_strip (py_strip s) = py_strip s"
proof -
  let ?a = "dropWhile is_space s"
  have "?a = [] \<or> \<not> is_space (hd ?a)" using hd_dropWhile [of is_space s] by blast
  from strip_trailing_keeps_head [of ?a is_space, OF this]
  show ?thesis by (simp add: py_strip_def)
qed

lemma py_int_strip [simp]: "py_int (py_strip s) = py_int s"
  by (simp add: py_int_def)

lemma py_int_Some_nonblank: "py_int s = Some n \<Longrightarrow> py_strip s \<noteq> []"
  by (auto simp: py_int_def split: if_splits)

lemma parse_digits_all:
  assumes "list_all is_digit cs" and "cs \<noteq> [] \<or> prev"
  shows "parse_digits acc prev cs \<noteq> None"
  using assms by (induction cs arbitrary: acc prev) auto

lemma py_int_decimal:
  assumes "is_decimal (py_strip s)" and "digit_count (py_strip s) \<le> int_max_str_digits"
  shows "py_int s \<noteq> None"
proof (cases "py_strip s")
  case Nil
  then show ?thesis using assms by (simp add: is_decimal_def)
next
  case (Cons c cs)
  have lim: "\<not> int_max_str_digits < digit_count (py_strip s)" using assms(2) by simp
  show ?thesis
  proof (cases "c = CHR ''-'' \<or> c = CHR ''+''")
    case True
    then have "parse_digits 0 False cs \<noteq> None"
      using assms(1) Cons by (intro parse_digits_all) (auto simp: is_decimal_def)
    then show ?thesis using True Cons lim by (auto simp: py_int_def)
  next
    case False
    then have "parse_digits 0 False (c # cs) \<noteq> None"
      using assms(1) Cons by (intro parse_digits_all) (auto simp: is_decimal_def)
    then show ?thesis using False Cons lim by (auto simp: py_int_def)
  qed
qed

lemma is_digit_one: "is_digit (CHR ''1'')" "\<not> is_space (CHR ''1'')"
  by (simp_all add: is_digit_def is_space_def)

lemma long_reply_facts:
  "long_reply \<noteq> []" "py_strip long_reply = long_reply" "is_decimal long_reply"
  "py_int long_reply = None"
proof -
  show ne: "long_reply \<noteq> []" by (simp add: long_reply_def)
  show st: "py_strip long_reply = long_reply"
    by (simp add: py_strip_def long_reply_def is_digit_one dropWhile_replicate)
  have all: "list_all is_digit long_reply"
    by (simp add: long_reply_def list_all_iff is_digit_one)
  obtain c cs where cc: "long_reply = c # cs" using ne by (cases long_reply) auto
  have "c \<in> set long_reply" unfolding cc by simp
  then have "c = CHR ''1''" by (simp add: long_reply_def)
  then have "c \<noteq> CHR ''-''" "c \<noteq> CHR ''+''" by simp_all
  then show "is_decimal long_reply" using all unfolding cc by (simp add: is_decimal_def)
  have "digit_count long_reply = 4301"
    by (simp add: digit_count_def long_reply_def is_digit_one)
  then show "py_int long_reply = None"
    by (simp add: py_int_def st int_max_str_digits_def)
qed

lemma numeric_create_milestone:
  assumes "\<forall>w. numeric_reply (fst (gh w (milestone_create_args (repo s) t)))"
  shows "case fst (create_milestone gh s t) of
           Inr r \<Rightarrow> True
         | Inl e \<Rightarrow> \<exists>w. fst (gh w (milestone_create_args (repo s) t)) = Raises e"
proof -
  let ?a = "milestone_create_args (repo s) t"
  obtain res s2 where r: "run_gh_command gh (print (CreatingMilestone t) s) ?a = (res, s2)"
    by (cases "run_gh_command gh (print (CreatingMilestone t) s) ?a")
  note rr = run_gh_command_result [OF r]
  from assms have nr: "numeric_reply (fst (gh (world s) ?a))" by blast
  show ?thesis
  proof (cases "fst (gh (world s) ?a)")
    case (Exit0 raw)
    then have res: "res = Inr (Some (py_strip raw))" using rr by simp
    show ?thesis
    proof (cases "py_strip raw = []")
      case True
      then show ?thesis by (simp add: create_milestone_def r res)
    next
      case False
      then have "is_decimal (py_strip raw) \<and> digit_count (py_strip raw) \<le> int_max_str_digits"
        using nr Exit0 by (simp add: numeric_reply_def)
      then have "py_int raw \<noteq> None" by (intro py_int_decimal) simp_all
      then show ?thesis using False by (auto simp: create_milestone_def r res)
    qed
  next
    case CalledProcessError
    then have "res = Inr None" using rr by simp
    then show ?thesis by (simp add: create_milestone_def r)
  next
    case (Raises e)
    then have "res = Inl e" using rr by simp
    then show ?thesis using Raises by (auto simp: create_milestone_def r)
  qed
qed

subsection \<open>The unguarded conversion\<close>

lemma rejected_lookup_raises:
  assumes "\<not> dry_run s" and "map_of (milestone_cache s) t = None"
    and "fst (gh (world s) (milestone_lookup_args (repo s) t)) = Exit0 raw"
    and "py_strip raw \<noteq> []" and "py_int raw = None"
  shows "fst (create_or_get_milestone gh s t) = Inl ValueError"
proof -
  obtain res s1 where l: "run_gh_command gh s (milestone_lookup_args (repo s) t) = (res, s1)"
    by (cases "run_gh_command gh s (milestone_lookup_args (repo s) t)")
  have "res = Inr (Some (py_strip raw))" using run_gh_command_result [OF l] assms(3) by simp
  then show ?thesis using assms by (simp add: create_or_get_milestone_def l)
qed

lemma rejected_creation_raises:
  assumes "\<not> dry_run s" and "map_of (milestone_cache s) t = None"
    and "fst (gh (world s) (milestone_lookup_args (repo s) t)) = CalledProcessError
       \<or> (\<exists>b. fst (gh (world s) (milestone_lookup_args (repo s) t)) = Exit0 b \<and> py_strip b = [])"
    and "fst (gh (snd (gh (world s) (milestone_lookup_args (repo s) t)))
              (milestone_create_args (repo s) t)) = Exit0 raw"
    and "py_strip raw \<noteq> []" and "py_int raw = None"
  shows "fst (create_or_get_milestone gh s t) = Inl ValueError"
proof -
  let ?la = "milestone_lookup_args (repo s) t" and ?ca = "milestone_create_args (repo s) t"
  obtain res s1 where l: "run_gh_command gh s ?la = (res, s1)"
    by (cases "run_gh_command gh s ?la")
  have w1: "world s1 = snd (gh (world s) ?la)" and r1: "repo s1 = repo s"
    using l by (auto simp: run_gh_command_def split: prod.splits outcome.splits)
  have res: "res = Inr None \<or> res = Inr (Some [])"
    using run_gh_command_result [OF l] assms(3) by auto
  then have c: "create_or_get_milestone gh s t = create_milestone gh s1 t"
    using assms(1,2) by (auto simp: create_or_get_milestone_def l)
  obtain res2 s2 where r: "run_gh_command gh (print (CreatingMilestone t) s1) ?ca = (res2, s2)"
    by (cases "run_gh_command gh (print (CreatingMilestone t) s1) ?ca")
  have "res2 = Inr (Some (py_strip raw))"
    using run_gh_command_result [OF r] assms(4) w1 by simp
  then show ?thesis using assms(5,6) by (simp add: c create_milestone_def r r1)
qed

text \<open>
  Claim C10, as stated, makes the conversion safe exactly when every non-empty reply
  to the milestone lookup and creation is a decimal integer numeral. That is neither
  enough nor needed: a numeral of 4301 digits is refused by \<open>int\<close>, which raises
  \<open>ValueError\<close>, and the reply \<open>1_0\<close>, which is not a string of digits, is converted
  to 10.
\<close>

theorem long_numeral_raises_and_underscore_converts:
  "is_decimal (py_strip long_reply)
   \<and> fst (create_or_get_milestone (gh_const (Exit0 long_reply)) (init ''r'' False ()) ''M'')
       = Inl ValueError
   \<and> \<not> is_decimal (py_strip ''1_0'')
   \<and> fst (create_or_get_milestone (gh_const (Exit0 ''1_0'')) (init ''r'' False ()) ''M'')
       = Inr (Some 10)"
proof -
  have ev: "py_strip ''1_0'' = ''1_0''" "py_int ''1_0'' = Some 10"
    by (simp_all add: py_strip_def py_int_def is_space_def is_digit_def digit_val_def
        digit_count_def int_max_str_digits_def)
  have nd: "\<not> is_decimal ''1_0''" by (simp add: is_decimal_def is_digit_def)
  have l: "fst (create_or_get_milestone (gh_const (Exit0 long_reply)) (init ''r'' False ()) ''M'')
       = Inl ValueError"
    by (simp add: create_or_get_milestone_def run_gh_command_def gh_const_def init_def
        long_reply_facts)
  have u: "fst (create_or_get_milestone (gh_const (Exit0 ''1_0'')) (init ''r'' False ()) ''M'')
       = Inr (Some 10)"
    by (simp add: create_or_get_milestone_def run_gh_command_def gh_const_def init_def ev)
  show ?thesis using l u nd by (simp add: long_reply_facts ev)
qed

text \<open>
  Claim C10, amended. \<open>create_or_get_milestone\<close> converts what the tool prints with \<open>int\<close>
  and nothing catches the \<open>ValueError\<close>. If every reply of the tool to the lookup and to
  the creation of the milestone is numeric (the process failed, or its output is
  blank, or once stripped it is an optional sign and digits, at most 4300 of them),
  the conversion does not raise: the method returns, or the exception that leaves it
  is one that \<open>subprocess.run\<close> raised on one of these two commands. And whenever a reply
  that is not blank and that \<open>int\<close> rejects reaches a conversion, on the lookup or on the
  creation, \<open>ValueError\<close> leaves the method.
\<close>

theorem milestone_conversion_guarded_by_short_numeric_replies:
  "((\<forall>w. numeric_reply (fst (gh w (milestone_lookup_args (repo s) t))))
      \<and> (\<forall>w. numeric_reply (fst (gh w (milestone_create_args (repo s) t))))
     \<longrightarrow> (case fst (create_or_get_milestone gh s t) of
            Inr r \<Rightarrow> True
          | Inl e \<Rightarrow> \<exists>w. fst (gh w (milestone_lookup_args (repo s) t)) = Raises e
                        \<or> fst (gh w (milestone_create_args (repo s) t)) = Raises e))
   \<and> (\<not> dry_run s \<and> map_of (milestone_cache s) t = None
      \<and> fst (gh (world s) (milestone_lookup_args (repo s) t)) = Exit0 raw
      \<and> py_strip raw \<noteq> [] \<and> py_int raw = None
     \<longrightarrow> fst (create_or_get_milestone gh s t) = Inl ValueError)
   \<and> (\<not> dry_run s \<and> map_of (milestone_cache s) t = None
      \<and> (fst (gh (world s) (milestone_lookup_args (repo s) t)) = CalledProcessError
          \<or> (\<exists>b. fst (gh (world s) (milestone_lookup_args (repo s) t)) = Exit0 b
                \<and> py_strip b = []))
      \<and> fst (gh (snd (gh (world s) (milestone_lookup_args (repo s) t)))
               (milestone_create_args (repo s) t)) = Exit0 raw
      \<and> py_strip raw \<noteq> [] \<and> py_int raw = None
     \<longrightarrow> fst (create_or_get_milestone gh s t) = Inl ValueError)"
proof -
  let ?la = "milestone_lookup_args (repo s) t" and ?ca = "milestone_create_args (repo s) t"
  have a: "case fst (create_or_get_milestone gh s t) of
            Inr r \<Rightarrow> True
          | Inl e \<Rightarrow> \<exists>w. fst (gh w ?la) = Raises e \<or> fst (gh w ?ca) = Raises e"
    if h1: "\<forall>w. numeric_reply (fst (gh w ?la))" and h2: "\<forall>w. numeric_reply (fst (gh w ?ca))"
  proof (cases "map_of (milestone_cache s) t")
    case (Some n)
    then show ?thesis by (simp add: create_or_get_milestone_def)
  next
    case None
    show ?thesis
    proof (cases "dry_run s")
      case True
      then show ?thesis using None by (simp add: create_or_get_milestone_def)
    next
      case False
      obtain res s1 where l: "run_gh_command gh s ?la = (res, s1)"
        by (cases "run_gh_command gh s ?la")
      note rr = run_gh_command_result [OF l]
      have r1: "repo s1 = repo s" using run_gh_command_frame [OF l] by simp
      have cm: "case fst (create_milestone gh s1 t) of
           Inr r \<Rightarrow> True
         | Inl e \<Rightarrow> \<exists>w. fst (gh w ?ca) = Raises e"
        using numeric_create_milestone [of gh s1 t, unfolded r1, OF h2] .
      from h1 have nr: "numeric_reply (fst (gh (world s) ?la))" by blast
      show ?thesis
      proof (cases "fst (gh (world s) ?la)")
        case (Exit0 raw)
        then have res: "res = Inr (Some (py_strip raw))" using rr by simp
        show ?thesis
        proof (cases "py_strip raw = []")
          case True
          then have "create_or_get_milestone gh s t = create_milestone gh s1 t"
            using None False by (simp add: create_or_get_milestone_def l res)
          then show ?thesis using cm by (auto split: sum.splits)
        next
          case nb: False
          then have "is_decimal (py_strip raw) \<and> digit_count (py_strip raw) \<le> int_max_str_digits"
            using nr Exit0 by (simp add: numeric_reply_def)
          then have "py_int raw \<noteq> None" by (intro py_int_decimal) simp_all
          then show ?thesis using None False nb
            by (auto simp: create_or_get_milestone_def l res)
        qed
      next
        case CalledProcessError
        then have "res = Inr None" using rr by simp
        then have "create_or_get_milestone gh s t = create_milestone gh s1 t"
          using None False by (simp add: create_or_get_milestone_def l)
        then show ?thesis using cm by (auto split: sum.splits)
      next
        case (Raises e)
        then have "res = Inl e" using rr by simp
        then have "fst (create_or_get_milestone gh s t) = Inl e"
          using None False by (simp add: create_or_get_milestone_def l)
        then show ?thesis using Raises by auto
      qed
    qed
  qed
  show ?thesis
    using a rejected_lookup_raises [of s t gh raw] rejected_creation_raises [of s t gh raw]
    by blast
qed

theorem milestone_conversion_guarded_by_short_numeric_replies_witness:
  "numeric_reply (fst (gh_const (Exit0 '' 7 '') () (milestone_lookup_args ''r'' ''M'')))
   \<and> numeric_reply (fst (gh_const (Exit0 '' 7 '') () (milestone_create_args ''r'' ''M'')))
   \<and> fst (create_or_get_milestone (gh_const (Exit0 '' 7 '')) (init ''r'' False ()) ''M'')
       = Inr (Some 7)
   \<and> py_int ''abc'' = None
   \<and> fst (create_or_get_milestone (gh_const (Exit0 ''abc'')) (init ''r'' False ()) ''M'')
       = Inl ValueError
   \<and> fst (create_or_get_milestone gh_create_garbage (init ''r'' False ()) ''M'') = Inl ValueError"
proof -
  let ?s = "init ''r'' False () :: unit creator"
  have ev: "py_strip '' 7 '' = ''7''" "py_strip ''7'' = ''7''" "py_int ''7'' = Some 7"
    "py_strip ''abc'' = ''abc''" "py_int ''abc'' = None" "py_strip [] = []"
    by (simp_all add: py_strip_def py_int_def is_space_def is_digit_def digit_val_def
        digit_count_def int_max_str_digits_def)
  have d: "is_decimal ''7''" "digit_count ''7'' \<le> int_max_str_digits"
    by (simp_all add: is_decimal_def is_digit_def digit_count_def int_max_str_digits_def)
  have h1: "\<forall>w. numeric_reply (fst (gh_const (Exit0 '' 7 '') w (milestone_lookup_args (repo ?s) ''M'')))"
    and h2: "\<forall>w. numeric_reply (fst (gh_const (Exit0 '' 7 '') w (milestone_create_args (repo ?s) ''M'')))"
    by (simp_all add: numeric_reply_def gh_const_def ev d)
  have s0: "\<not> dry_run ?s" "map_of (milestone_cache ?s) ''M'' = None" "world ?s = ()" "repo ?s = ''r''"
    by (simp_all add: init_def)
  note T1 = milestone_conversion_guarded_by_short_numeric_replies
    [of "gh_const (Exit0 '' 7 '')" ?s "''M''" "''abc''"]
  note T2 = milestone_conversion_guarded_by_short_numeric_replies
    [of "gh_const (Exit0 ''abc'')" ?s "''M''" "''abc''"]
  note T3 = milestone_conversion_guarded_by_short_numeric_replies
    [of gh_create_garbage ?s "''M''" "''abc''"]
  from T1 h1 h2 have "case fst (create_or_get_milestone (gh_const (Exit0 '' 7 '')) ?s ''M'') of
            Inr r \<Rightarrow> True
          | Inl e \<Rightarrow> \<exists>w. fst (gh_const (Exit0 '' 7 '') w (milestone_lookup_args (repo ?s) ''M'')) = Raises e
                        \<or> fst (gh_const (Exit0 '' 7 '') w (milestone_create_args (repo ?s) ''M'')) = Raises e"
    by blast
  then have "\<exists>r. fst (create_or_get_milestone (gh_const (Exit0 '' 7 '')) ?s ''M'') = Inr r"
    by (simp add: gh_const_def split: sum.splits)
  moreover have "fst (create_or_get_milestone (gh_const (Exit0 '' 7 '')) ?s ''M'') = Inr (Some 7)"
    by (simp add: create_or_get_milestone_def run_gh_command_def gh_const_def init_def ev)
  moreover note this
  have p2: "fst (gh_const (Exit0 ''abc'') (world ?s) (milestone_lookup_args (repo ?s) ''M''))
      = Exit0 ''abc''"
    by (simp add: gh_const_def)
  have ne: "py_strip ''abc'' \<noteq> []" and rej: "py_int ''abc'' = None" by (simp_all add: ev)
  have c2: "fst (create_or_get_milestone (gh_const (Exit0 ''abc'')) ?s ''M'') = Inl ValueError"
    by (rule T2 [THEN conjunct2, THEN conjunct1, THEN mp]) (intro conjI s0(1) s0(2) p2 ne rej)
  have p3: "fst (gh_create_garbage (world ?s) (milestone_lookup_args (repo ?s) ''M'')) = CalledProcessError
      \<or> (\<exists>b. fst (gh_create_garbage (world ?s) (milestone_lookup_args (repo ?s) ''M'')) = Exit0 b
      \<and> py_strip b = [])"
    by (simp add: gh_create_garbage_def milestone_lookup_args_def ev)
  have p4: "fst (gh_create_garbage (snd (gh_create_garbage (world ?s) (milestone_lookup_args (repo ?s) ''M'')))
       (milestone_create_args (repo ?s) ''M'')) = Exit0 ''abc''"
    by (simp add: gh_create_garbage_def milestone_create_args_def)
  have c3: "fst (create_or_get_milestone gh_create_garbage ?s ''M'') = Inl ValueError"
    by (rule T3 [THEN conjunct2, THEN conjunct2, THEN mp]) (intro conjI s0(1) s0(2) p3 p4 ne rej)
  ultimately show ?thesis using h1 h2 c2 c3 rej by (simp add: init_def)
qed

subsection \<open>Evaluating a run\<close>

lemmas run_defs = process_yaml_def create_issue_def submit_issue_def create_or_get_milestone_def
  create_milestone_def create_label_if_missing_def create_label_def run_gh_command_def
  init_def main_def exit_status_def milestone_lookup_args_def milestone_create_args_def
  label_lookup_args_def label_create_args_def issue_create_args_def default_color_def

lemma ev7: "py_strip ''7'' = ''7''" "py_int ''7'' = Some 7" "py_strip ''abc'' = ''abc''"
  "py_int ''abc'' = None"
  by (simp_all add: py_strip_def py_int_def is_space_def is_digit_def digit_val_def
      digit_count_def int_max_str_digits_def)

subsection \<open>An issue that fails before its submission\<close>

text \<open>An issue without a title is skipped: \<open>create_issue\<close> prints one line and returns
  \<open>False\<close>, and the loop adds one to the failed counter. An issue whose milestone is not
  resolved is given up after the two milestone commands, with the same effect on the
  counter.\<close>

lemma create_issue_without_title:
  assumes "title i = None \<or> title i = Some []"
  shows "create_issue gh s i = (Inr False, print SkippingNoTitle s)"
    and "issue_loop gh s created failed (i # rest)
           = issue_loop gh (print SkippingNoTitle s) created (failed + 1) rest"
  using assms by (auto simp: create_issue_def)

lemma milestone_failure_aborts_issue:
  assumes "title i = Some t" and "t \<noteq> []" and "milestone i = Some m" and "m \<noteq> []"
    and "create_or_get_milestone gh (print (Processing t) s) m = (Inr None, s2)"
  shows "create_issue gh s i = (Inr False, print (MilestoneFailed m) s2)"
    and "calls (snd (create_issue gh s i))
           = calls s @ [milestone_lookup_args (repo s) m, milestone_create_args (repo s) m]"
    and "issue_loop gh s created failed (i # rest)
           = issue_loop gh (print (MilestoneFailed m) s2) created (failed + 1) rest"
proof -
  show ci: "create_issue gh s i = (Inr False, print (MilestoneFailed m) s2)"
    using assms by (simp add: create_issue_def)
  have "calls s2 = calls s @ [milestone_lookup_args (repo s) m, milestone_create_args (repo s) m]"
    using create_or_get_milestone_frame [OF assms(5)] by auto
  then show "calls (snd (create_issue gh s i))
           = calls s @ [milestone_lookup_args (repo s) m, milestone_create_args (repo s) m]"
    by (simp add: ci)
  show "issue_loop gh s created failed (i # rest)
           = issue_loop gh (print (MilestoneFailed m) s2) created (failed + 1) rest"
    by (simp add: ci)
qed

subsection \<open>The summary of a run\<close>

text \<open>When the loop over the issues returns, every issue was counted once, as created or
  as failed, and every issue without a title as failed. \<open>process_yaml\<close> prints the
  summary exactly when the loop returns: a run that completes on a non-empty batch
  prints one summary line, and a run that does not complete prints none.\<close>

lemma issue_loop_total:
  assumes "issue_loop gh s c f is = (Inr (c', f'), s')"
  shows "c \<le> c' \<and> f + length (filter (\<lambda>i. \<not> titled i) is) \<le> f' \<and> c' + f' = c + f + length is"
  using assms
proof (induction "is" arbitrary: s c f)
  case Nil
  then show ?case by simp
next
  case (Cons i "is")
  obtain r1 s1 where ci: "create_issue gh s i = (r1, s1)" by (cases "create_issue gh s i")
  show ?case
  proof (cases r1)
    case (Inl e)
    then show ?thesis using Cons.prems ci by simp
  next
    case (Inr ok)
    have nt: "\<not> titled i \<Longrightarrow> \<not> ok"
      using ci Inr by (auto simp: titled_def create_issue_def split: option.splits)
    show ?thesis
    proof (cases ok)
      case True
      then have "issue_loop gh s1 (c + 1) f is = (Inr (c', f'), s')"
        using Cons.prems ci Inr by simp
      from Cons.IH [OF this] nt True show ?thesis by auto
    next
      case False
      then have "issue_loop gh s1 c (f + 1) is = (Inr (c', f'), s')"
        using Cons.prems ci Inr by simp
      from Cons.IH [OF this] show ?thesis by auto
    qed
  qed
qed

lemma process_yaml_summary:
  assumes "batch \<noteq> []"
  shows "process_yaml gh s (Loaded (MappingDoc (Issues batch))) =
     (case issue_loop gh (print (Found (length batch)) (print (Banner (repo s) (dry_run s)) s))
             0 0 batch of
        (Inl e, s') \<Rightarrow> (Inl e, s')
      | (Inr (c, f), s') \<Rightarrow>
          (Inr (), print Footer (if dry_run s then print DryRunReminder (print (Summary (length batch) c f) s')
                                 else print (Summary (length batch) c f) s')))"
  using assms by (simp add: process_yaml_def Let_def split: prod.splits sum.splits)

lemma summary_of_completed_run:
  assumes "batch \<noteq> []"
    and "fst (process_yaml gh s (Loaded (MappingDoc (Issues batch)))) = Inr ()"
  shows "\<exists>c f. summaries (out (snd (process_yaml gh s (Loaded (MappingDoc (Issues batch))))))
           = summaries (out s) @ [(length batch, c, f)]
        \<and> c + f = length batch
        \<and> length (filter (\<lambda>i. \<not> titled i) batch) \<le> f"
proof -
  let ?s1 = "print (Found (length batch)) (print (Banner (repo s) (dry_run s)) s)"
  obtain r s' where lp: "issue_loop gh ?s1 0 0 batch = (r, s')"
    by (cases "issue_loop gh ?s1 0 0 batch")
  have g: "summaries (out s') = summaries (out s)"
    using grows_issue_loop [OF lp] by (simp add: grows_def)
  show ?thesis
  proof (cases r)
    case (Inl e)
    then show ?thesis using assms lp by (simp add: process_yaml_summary)
  next
    case (Inr p)
    obtain c f where p: "p = (c, f)" by (cases p)
    from issue_loop_total [OF lp [unfolded Inr p]]
    have t: "c + f = length batch" "length (filter (\<lambda>i. \<not> titled i) batch) \<le> f" by simp_all
    have "summaries (out (snd (process_yaml gh s (Loaded (MappingDoc (Issues batch))))))
           = summaries (out s) @ [(length batch, c, f)]"
      using assms(1) lp Inr p g by (simp add: process_yaml_summary)
    then show ?thesis using t by blast
  qed
qed

lemma summary_only_on_completion:
  assumes "fst (process_yaml gh s f) \<noteq> Inr ()"
  shows "summaries (out (snd (process_yaml gh s f))) = summaries (out s)"
proof (cases "\<exists>batch. f = Loaded (MappingDoc (Issues batch)) \<and> batch \<noteq> []")
  case True
  then obtain batch where b: "f = Loaded (MappingDoc (Issues batch))" "batch \<noteq> []" by blast
  let ?s1 = "print (Found (length batch)) (print (Banner (repo s) (dry_run s)) s)"
  obtain r s' where lp: "issue_loop gh ?s1 0 0 batch = (r, s')"
    by (cases "issue_loop gh ?s1 0 0 batch")
  have g: "summaries (out s') = summaries (out s)"
    using grows_issue_loop [OF lp] by (simp add: grows_def)
  show ?thesis
  proof (cases r)
    case (Inl e)
    then show ?thesis using b lp g by (simp add: process_yaml_summary)
  next
    case (Inr p)
    then show ?thesis using assms b lp by (cases p) (simp add: process_yaml_summary)
  qed
next
  case False
  show ?thesis
  proof (cases f)
    case LoadFails
    then show ?thesis by (simp add: process_yaml_def)
  next
    case (Loaded d)
    show ?thesis
    proof (cases d)
      case EmptyDoc
      then show ?thesis using Loaded by (simp add: process_yaml_def)
    next
      case ScalarOrSeqDoc
      then show ?thesis using Loaded by (simp add: process_yaml_def)
    next
      case (MappingDoc fld)
      then show ?thesis using Loaded False by (cases fld) (simp_all add: process_yaml_def)
    qed
  qed
qed


text \<open>
  Claim C5 says that an issue without a title is counted as a failure in the run
  summary. By the lemmas above it is skipped with no call and counted as failed in
  the loop, and a run that completes counts it in the summary. The code on a batch
  that starts with such an issue, when the milestone lookup of the next issue prints
  \<open>abc\<close>: the conversion raises \<open>ValueError\<close>, and the run ends with status 1 without
  printing a summary. The same happens in a dry run when the next record has a null
  \<open>labels\<close> key.
\<close>

theorem untitled_issue_not_in_summary_when_run_aborts:
  "create_issue (gh_const (Exit0 ''abc'')) (init ''r'' False ()) ex_untitled
     = (Inr False, print SkippingNoTitle (init ''r'' False ()))
   \<and> fst (process_yaml (gh_const (Exit0 ''abc'')) (init ''r'' False ())
         (Loaded (MappingDoc (Issues [ex_untitled, ex_issue])))) = Inl ValueError
   \<and> out (snd (process_yaml (gh_const (Exit0 ''abc'')) (init ''r'' False ())
         (Loaded (MappingDoc (Issues [ex_untitled, ex_issue])))))
       = [Banner ''r'' False, Found 2, SkippingNoTitle, Processing ''T'']
   \<and> fst (main (gh_const (Exit0 ''abc'')) () False ''r''
         (Loaded (MappingDoc (Issues [ex_untitled, ex_issue])))) = 1
   \<and> fst (process_yaml (gh_const (Exit0 ''7'')) (init ''r'' True ())
         (Loaded (MappingDoc (Issues [ex_untitled, ex_null_labels])))) = Inl TypeError
   \<and> summaries (out (snd (process_yaml (gh_const (Exit0 ''7'')) (init ''r'' True ())
         (Loaded (MappingDoc (Issues [ex_untitled, ex_null_labels])))))) = []"
  by (simp add: run_defs gh_const_def ex_untitled_def ex_issue_def ex_null_labels_def ev7)

subsection \<open>Dry-run mode\<close>

text \<open>In dry-run mode no method hands a command to \<open>subprocess.run\<close>, whatever the records
  and whether or not the run raises; a milestone that is not cached is cached with the
  number 1 and a label with its name. \<open>create_issue\<close> returns \<open>True\<close> for a titled issue
  unless its \<open>labels\<close> key is null, in which case \<open>TypeError\<close> is raised.\<close>

lemma quiet_refl: "dry_run s \<Longrightarrow> quiet s s"
  by (simp add: quiet_def)

lemma quiet_trans: "quiet s s1 \<Longrightarrow> quiet s1 s2 \<Longrightarrow> quiet s s2"
  by (simp add: quiet_def)

lemma quiet_print: "dry_run s \<Longrightarrow> quiet s (print m s)"
  by (simp add: quiet_def)

lemma ids_nonzero_update: "ids_nonzero al \<Longrightarrow> n \<noteq> 0 \<Longrightarrow> ids_nonzero (AList.update k n al)"
  by (induction al) (auto simp: ids_nonzero_def)

lemma ids_nonzero_lookup: "ids_nonzero al \<Longrightarrow> map_of al k = Some n \<Longrightarrow> n \<noteq> 0"
  by (auto simp: ids_nonzero_def dest!: map_of_SomeD) (metis image_eqI snd_conv)

lemma dry_create_or_get_milestone:
  assumes "dry_run s"
  shows "create_or_get_milestone gh s t =
     (case map_of (milestone_cache s) t of
        Some n \<Rightarrow> (Inr (Some n), s)
      | None \<Rightarrow> (Inr (Some 1), cache_milestone t 1 (print (DryRunMilestone t) s)))"
  using assms by (simp add: create_or_get_milestone_def split: option.splits)

lemma quiet_create_or_get_milestone:
  assumes "dry_run s"
  shows "quiet s (snd (create_or_get_milestone gh s t))"
  using assms
  by (auto simp: dry_create_or_get_milestone quiet_def ids_nonzero_update split: option.splits)

lemma dry_create_label_if_missing:
  assumes "dry_run s"
  shows "create_label_if_missing gh s l c =
     (Inr True, if l \<in> set (label_cache s) then s else cache_label l (print (DryRunLabel l) s))"
  using assms by (simp add: create_label_if_missing_def)

lemma dry_ensure_labels:
  assumes "dry_run s"
  shows "fst (ensure_labels gh s ls) = Inr () \<and> quiet s (snd (ensure_labels gh s ls))"
  using assms
proof (induction ls arbitrary: s)
  case Nil
  then show ?case by (simp add: quiet_refl)
next
  case (Cons l ls)
  let ?s1 = "if l \<in> set (label_cache s) then s else cache_label l (print (DryRunLabel l) s)"
  have q1: "quiet s ?s1" using Cons.prems by (simp add: quiet_def)
  then have "dry_run ?s1" by (simp add: quiet_def)
  from Cons.IH [OF this] have "fst (ensure_labels gh ?s1 ls) = Inr ()"
    "quiet ?s1 (snd (ensure_labels gh ?s1 ls))" by simp_all
  moreover have "ensure_labels gh s (l # ls) = ensure_labels gh ?s1 ls"
    using Cons.prems by (simp add: dry_create_label_if_missing)
  ultimately show ?case using quiet_trans [OF q1] by simp
qed

lemma dry_submit_issue:
  assumes "dry_run s"
  shows "submit_issue gh s t i =
     (case labels i of
        None \<Rightarrow> (Inl TypeError, s)
      | Some ls \<Rightarrow> (Inr True, print (DryRunIssue t (join '', '' ls) (milestone i))
                               (snd (ensure_labels gh s ls))))"
proof (cases "labels i")
  case None
  then show ?thesis by (simp add: submit_issue_def)
next
  case (Some ls)
  obtain r1 s1 where el: "ensure_labels gh s ls = (r1, s1)" by (cases "ensure_labels gh s ls")
  from dry_ensure_labels [OF assms, of gh ls] el have "r1 = Inr ()" "dry_run s1"
    by (simp_all add: quiet_def)
  then show ?thesis using Some el by (simp add: submit_issue_def)
qed

lemma quiet_submit_issue:
  assumes "dry_run s"
  shows "quiet s (snd (submit_issue gh s t i))"
proof (cases "labels i")
  case None
  then show ?thesis using assms by (simp add: dry_submit_issue quiet_refl)
next
  case (Some ls)
  have "quiet s (snd (ensure_labels gh s ls))" using dry_ensure_labels [OF assms] by simp
  then show ?thesis using Some assms by (simp add: dry_submit_issue quiet_def)
qed

lemma dry_create_issue:
  assumes "dry_run s"
  shows "quiet s (snd (create_issue gh s i))
    \<and> (ids_nonzero (milestone_cache s) \<longrightarrow>
         fst (create_issue gh s i)
           = (if titled i \<and> labels i = None then Inl TypeError else Inr (titled i)))"
proof (cases "titled i")
  case False
  then show ?thesis using assms
    by (auto simp: create_issue_def titled_def quiet_def split: option.splits)
next
  case True
  then obtain t where t: "title i = Some t" "t \<noteq> []"
    by (auto simp: titled_def split: option.splits)
  let ?s1 = "print (Processing t) s"
  have d1: "dry_run ?s1" and q1: "quiet s ?s1" using assms by (simp_all add: quiet_def)
  have sub: "fst (submit_issue gh s' t i) = (if labels i = None then Inl TypeError else Inr True)"
    if "dry_run s'" for s' :: "'a creator"
    using that by (simp add: dry_submit_issue split: option.splits)
  show ?thesis
  proof (cases "milestone i = None \<or> milestone i = Some []")
    case nm: True
    have "create_issue gh s i = submit_issue gh ?s1 t i"
      using t nm by (auto simp: create_issue_def)
    then show ?thesis
      using quiet_trans [OF q1 quiet_submit_issue [OF d1, of gh t i]] True sub [OF d1] by simp
  next
    case False
    then obtain m where m: "milestone i = Some m" "m \<noteq> []" by auto
    obtain r2 s2 where c0: "create_or_get_milestone gh ?s1 m = (r2, s2)"
      by (cases "create_or_get_milestone gh ?s1 m")
    have q2: "quiet ?s1 s2" using quiet_create_or_get_milestone [OF d1, of gh m] c0 by simp
    then have d2: "dry_run s2" by (simp add: quiet_def)
    have q3: "quiet s (snd (submit_issue gh s2 t i))"
      using quiet_trans [OF quiet_trans [OF q1 q2] quiet_submit_issue [OF d2]] .
    have qf: "quiet s (print (MilestoneFailed m) s2)"
      using quiet_trans [OF quiet_trans [OF q1 q2] quiet_print [OF d2]] .
    have "fst (create_or_get_milestone gh ?s1 m)
        = Inr (Some (case map_of (milestone_cache s) m of None \<Rightarrow> 1 | Some k \<Rightarrow> k))"
      by (simp add: dry_create_or_get_milestone [OF d1] split: option.splits)
    then have r2: "r2 = Inr (Some (case map_of (milestone_cache s) m of None \<Rightarrow> 1 | Some k \<Rightarrow> k))"
      by (simp add: c0)
    have "ids_nonzero (milestone_cache s)
        \<longrightarrow> (case map_of (milestone_cache s) m of None \<Rightarrow> 1 | Some k \<Rightarrow> k) \<noteq> 0"
      using ids_nonzero_lookup [of "milestone_cache s" m] by (simp split: option.splits)
    with r2 have "\<exists>n. r2 = Inr (Some n) \<and> (ids_nonzero (milestone_cache s) \<longrightarrow> n \<noteq> 0)"
      by blast
    then obtain n where n: "r2 = Inr (Some n)"
      and nz: "ids_nonzero (milestone_cache s) \<longrightarrow> n \<noteq> 0"
      by blast
    have "create_issue gh s i =
        (if n = 0 then (Inr False, print (MilestoneFailed m) s2) else submit_issue gh s2 t i)"
      using t m by (simp add: create_issue_def c0 n)
    then show ?thesis using q3 qf nz True sub [OF d2] by simp
  qed
qed

lemma quiet_issue_loop:
  assumes "dry_run s"
  shows "quiet s (snd (issue_loop gh s c f is))"
  using assms
proof (induction "is" arbitrary: s c f)
  case Nil
  then show ?case by (simp add: quiet_refl)
next
  case (Cons i "is")
  obtain r s1 where ci: "create_issue gh s i = (r, s1)" by (cases "create_issue gh s i")
  have q1: "quiet s s1" using dry_create_issue [OF Cons.prems, of gh i] ci by simp
  then have d1: "dry_run s1" by (simp add: quiet_def)
  show ?case
  proof (cases r)
    case (Inl e)
    then show ?thesis using ci q1 by simp
  next
    case (Inr ok)
    show ?thesis
      using quiet_trans [OF q1 Cons.IH [OF d1]] ci Inr by simp
  qed
qed

lemma dry_issue_loop_counts:
  assumes "dry_run s" and "ids_nonzero (milestone_cache s)"
    and "\<forall>i\<in>set is. titled i \<longrightarrow> labels i \<noteq> None"
  shows "fst (issue_loop gh s c f is)
      = Inr (c + length (filter titled is), f + length (filter (\<lambda>i. \<not> titled i) is))"
  using assms
proof (induction "is" arbitrary: s c f)
  case Nil
  then show ?case by simp
next
  case (Cons i "is")
  obtain r s1 where ci: "create_issue gh s i = (r, s1)" by (cases "create_issue gh s i")
  from dry_create_issue [OF Cons.prems(1), of gh i] ci Cons.prems(2,3)
  have r: "r = Inr (titled i)" and q: "quiet s s1" by auto
  from q Cons.prems(2) have d1: "dry_run s1" "ids_nonzero (milestone_cache s1)"
    by (simp_all add: quiet_def)
  have rest: "\<forall>i\<in>set is. titled i \<longrightarrow> labels i \<noteq> None" using Cons.prems(3) by simp
  show ?case using Cons.IH [OF d1 rest] ci r by simp
qed

lemma quiet_process_yaml:
  assumes "dry_run s"
  shows "quiet s (snd (process_yaml gh s f))"
proof -
  let ?s0 = "print (Banner (repo s) (dry_run s)) s"
  have q0: "quiet s ?s0" and d0: "dry_run ?s0" using assms by (simp_all add: quiet_def)
  have simple: "quiet s (print m ?s0)" for m using assms by (simp add: quiet_def)
  show ?thesis
  proof (cases f)
    case LoadFails
    then show ?thesis using simple by (simp add: process_yaml_def)
  next
    case (Loaded d)
    show ?thesis
    proof (cases d)
      case EmptyDoc
      then show ?thesis using Loaded q0 by (simp add: process_yaml_def)
    next
      case ScalarOrSeqDoc
      then show ?thesis using Loaded q0 by (simp add: process_yaml_def)
    next
      case (MappingDoc fld)
      show ?thesis
      proof (cases fld)
        case Absent
        then show ?thesis using Loaded MappingDoc simple by (simp add: process_yaml_def)
      next
        case Null
        then show ?thesis using Loaded MappingDoc simple by (simp add: process_yaml_def)
      next
        case (Issues batch)
        show ?thesis
        proof (cases "batch = []")
          case True
          then show ?thesis using Loaded MappingDoc Issues simple by (simp add: process_yaml_def)
        next
          case False
          let ?s1 = "print (Found (length batch)) ?s0"
          have q1: "quiet s ?s1" by (rule simple)
          then have d1: "dry_run ?s1" by (simp add: quiet_def)
          obtain r s' where lp: "issue_loop gh ?s1 0 0 batch = (r, s')"
            by (cases "issue_loop gh ?s1 0 0 batch")
          have q2: "quiet s s'"
            using quiet_trans [OF q1 quiet_issue_loop [OF d1, of gh 0 0 batch]] lp by simp
          then have "quiet s (print m1 (print m2 (print m3 s')))" for m1 m2 m3
            by (simp add: quiet_def)
          moreover have "quiet s (print m1 (print m2 s'))" for m1 m2
            using q2 by (simp add: quiet_def)
          ultimately show ?thesis
            using Loaded MappingDoc Issues False lp q2 assms
            by (cases r) (auto simp: process_yaml_summary simp del: print_simps)
        qed
      qed
    qed
  qed
qed

lemma dry_run_makes_no_call:
  assumes "dry_run s"
  shows "calls (snd (create_or_get_milestone gh s t)) = calls s
      \<and> world (snd (create_or_get_milestone gh s t)) = world s"
    and "calls (snd (create_label_if_missing gh s l c)) = calls s
      \<and> world (snd (create_label_if_missing gh s l c)) = world s"
    and "calls (snd (create_issue gh s i)) = calls s
      \<and> world (snd (create_issue gh s i)) = world s"
    and "calls (snd (process_yaml gh s f)) = calls s
      \<and> world (snd (process_yaml gh s f)) = world s"
    and "calls (snd (main gh w True r f)) = []"
proof -
  show "calls (snd (create_or_get_milestone gh s t)) = calls s
      \<and> world (snd (create_or_get_milestone gh s t)) = world s"
    using quiet_create_or_get_milestone [OF assms, of gh t] by (simp add: quiet_def)
  show "calls (snd (create_label_if_missing gh s l c)) = calls s
      \<and> world (snd (create_label_if_missing gh s l c)) = world s"
    using assms by (simp add: dry_create_label_if_missing)
  show "calls (snd (create_issue gh s i)) = calls s
      \<and> world (snd (create_issue gh s i)) = world s"
    using dry_create_issue [OF assms, of gh i] by (simp add: quiet_def)
  show "calls (snd (process_yaml gh s f)) = calls s
      \<and> world (snd (process_yaml gh s f)) = world s"
    using quiet_process_yaml [OF assms, of gh f] by (simp add: quiet_def)
  have i: "calls (init r True w') = []" "dry_run (init r True w')" for w' :: 'a
    by (simp_all add: init_def)
  have "calls (snd (process_yaml gh (init r True (snd (gh w [''--version'']))) f)) = []"
    using quiet_process_yaml [of "init r True (snd (gh w [''--version'']))" gh f]
    by (simp add: quiet_def i)
  then show "calls (snd (main gh w True r f)) = []"
    by (auto simp: main_def i split: prod.splits outcome.splits)
qed

lemma dry_run_summary:
  assumes "batch \<noteq> []" and "\<forall>i\<in>set batch. titled i \<longrightarrow> labels i \<noteq> None"
  shows "fst (process_yaml gh (init r True w) (Loaded (MappingDoc (Issues batch)))) = Inr ()"
    and "summaries (out (snd (process_yaml gh (init r True w) (Loaded (MappingDoc (Issues batch))))))
       = [(length batch, length (filter titled batch), length (filter (\<lambda>i. \<not> titled i) batch))]"
proof -
  let ?s = "init r True w :: 'a creator"
  let ?s1 = "print (Found (length batch)) (print (Banner (repo ?s) (dry_run ?s)) ?s)"
  obtain res s' where lp: "issue_loop gh ?s1 0 0 batch = (res, s')"
    by (cases "issue_loop gh ?s1 0 0 batch")
  have "fst (issue_loop gh ?s1 0 0 batch)
      = Inr (0 + length (filter titled batch), 0 + length (filter (\<lambda>i. \<not> titled i) batch))"
    by (rule dry_issue_loop_counts) (simp_all add: init_def ids_nonzero_def assms(2))
  then have res: "res = Inr (length (filter titled batch), length (filter (\<lambda>i. \<not> titled i) batch))"
    using lp by simp
  have g: "summaries (out s') = summaries (out ?s1)"
    using grows_issue_loop [OF lp] by (simp add: grows_def)
  show "fst (process_yaml gh ?s (Loaded (MappingDoc (Issues batch)))) = Inr ()"
    using assms(1) lp res by (simp add: process_yaml_summary)
  show "summaries (out (snd (process_yaml gh ?s (Loaded (MappingDoc (Issues batch))))))
       = [(length batch, length (filter titled batch), length (filter (\<lambda>i. \<not> titled i) batch))]"
    using assms(1) lp res g by (simp add: process_yaml_summary init_def)
qed

text \<open>
  Claim C1 says that in dry-run mode no operation calls the tool and \<open>create_issue\<close> returns
  \<open>True\<close> for every issue with a non-empty title. By the lemmas above no call is ever
  made in dry-run mode, and \<open>True\<close> is returned when \<open>labels\<close> is not null. The code on a
  record with a title whose \<open>labels\<close> key is null: \<open>dict.get\<close> gives \<open>None\<close>, the loop over
  the labels raises \<open>TypeError\<close> right after the line announcing the issue, and the dry
  run ends with status 1 and no summary.
\<close>

theorem dry_run_raises_on_null_labels:
  "fst (create_issue (gh_const (Exit0 ''7'')) (init ''r'' True ()) ex_null_labels) = Inl TypeError
   \<and> out (snd (create_issue (gh_const (Exit0 ''7'')) (init ''r'' True ()) ex_null_labels))
       = [Processing ''N'']
   \<and> fst (main (gh_const (Exit0 ''7'')) () True ''r''
         (Loaded (MappingDoc (Issues [ex_null_labels])))) = 1
   \<and> summaries (out (snd (main (gh_const (Exit0 ''7'')) () True ''r''
         (Loaded (MappingDoc (Issues [ex_null_labels])))))) = []"
  by (simp add: run_defs gh_const_def ex_null_labels_def)

subsection \<open>Label commands and the submission\<close>

text \<open>In a live run, for an issue whose \<open>labels\<close> and \<open>body\<close> are not null: if no label
  command raises, then whatever each \<open>create_label_if_missing\<close> returned, the last
  command handed to \<open>subprocess.run\<close> is the issue creation, with all the labels of the
  record joined by commas after \<open>--label\<close>.\<close>

lemma ensure_labels_calls:
  assumes "ensure_labels gh s ls = (r, s')"
  shows "\<exists>pre. calls s' = calls s @ pre
     \<and> list_all (\<lambda>a. \<exists>l\<in>set ls. a = label_lookup_args l \<or> a = label_create_args l default_color) pre"
  using assms
proof (induction ls arbitrary: s)
  case Nil
  then show ?case by simp
next
  case (Cons l ls)
  obtain r1 s1 where c: "create_label_if_missing gh s l default_color = (r1, s1)"
    by (cases "create_label_if_missing gh s l default_color")
  from create_label_if_missing_frame [OF c] obtain new where n: "calls s1 = calls s @ new"
    "set new \<subseteq> {label_lookup_args l, label_create_args l default_color}" by blast
  have la: "list_all (\<lambda>a. \<exists>k\<in>set (l # ls). a = label_lookup_args k
      \<or> a = label_create_args k default_color) new"
    using n(2) by (auto simp: list_all_iff)
  show ?case
  proof (cases r1)
    case (Inl e)
    then have "s' = s1" using Cons.prems c by simp
    then show ?thesis using n(1) la by blast
  next
    case (Inr ok)
    let ?s2 = "if ok then s1 else print (LabelWarning l) s1"
    have "ensure_labels gh ?s2 ls = (r, s')" using Cons.prems c Inr by simp
    from Cons.IH [OF this] obtain pre where p: "calls s' = calls ?s2 @ pre"
      "list_all (\<lambda>a. \<exists>l\<in>set ls. a = label_lookup_args l \<or> a = label_create_args l default_color) pre"
      by blast
    have "calls s' = calls s @ (new @ pre)" using p(1) n(1) by simp
    moreover have "list_all (\<lambda>a. \<exists>k\<in>set (l # ls). a = label_lookup_args k
        \<or> a = label_create_args k default_color) (new @ pre)"
      using p(2) la by (auto simp: list_all_iff)
    ultimately show ?thesis by blast
  qed
qed

lemma live_submit_issue:
  assumes "\<not> dry_run s" and "labels i = Some ls" and "body i = Some b"
    and "fst (ensure_labels gh s ls) = Inr ()"
  shows "\<exists>pre. calls (snd (submit_issue gh s t i))
        = calls s @ pre @ [issue_create_args t b ls (milestone i)]
     \<and> list_all (\<lambda>a. \<exists>l\<in>set ls. a = label_lookup_args l \<or> a = label_create_args l default_color) pre"
proof -
  obtain r1 s1 where el: "ensure_labels gh s ls = (r1, s1)" by (cases "ensure_labels gh s ls")
  have r1: "r1 = Inr ()" using assms(4) el by simp
  have nd: "\<not> dry_run s1" using grows_ensure_labels [OF el] assms(1) by (simp add: grows_def)
  from ensure_labels_calls [OF el] obtain pre where p: "calls s1 = calls s @ pre"
    "list_all (\<lambda>a. \<exists>l\<in>set ls. a = label_lookup_args l \<or> a = label_create_args l default_color) pre"
    by blast
  obtain res s2 where r: "run_gh_command gh (print CreatingIssue s1)
      (issue_create_args t b ls (milestone i)) = (res, s2)"
    by (cases "run_gh_command gh (print CreatingIssue s1) (issue_create_args t b ls (milestone i))")
  have c2: "calls s2 = calls s @ pre @ [issue_create_args t b ls (milestone i)]"
    using run_gh_command_frame [OF r] p(1) by simp
  have "calls (snd (submit_issue gh s t i)) = calls s2"
    using assms(2,3) el r1 nd r by (cases res) (simp_all add: submit_issue_def)
  with c2 p(2) show ?thesis by auto
qed

lemma label_failure_does_not_abort:
  assumes "\<not> dry_run s" and "title i = Some t" and "t \<noteq> []"
    and "(milestone i = None \<or> milestone i = Some []) \<and> s2 = print (Processing t) s
       \<or> (\<exists>m n. milestone i = Some m \<and> m \<noteq> [] \<and> n \<noteq> 0
            \<and> create_or_get_milestone gh (print (Processing t) s) m = (Inr (Some n), s2))"
    and "labels i = Some ls" and "body i = Some b"
    and "fst (ensure_labels gh s2 ls) = Inr ()"
  shows "\<exists>pre. calls (snd (create_issue gh s i))
        = calls s2 @ pre @ [issue_create_args t b ls (milestone i)]
      \<and> list_all (\<lambda>a. \<exists>l\<in>set ls. a = label_lookup_args l
                        \<or> a = label_create_args l default_color) pre"
    and "ls \<noteq> [] \<Longrightarrow> take 2 (drop 6 (issue_create_args t b ls (milestone i)))
        = [''--label'', join '','' ls]"
proof -
  have ci: "create_issue gh s i = submit_issue gh s2 t i"
    using assms(2,3,4) by (auto simp: create_issue_def)
  have nd: "\<not> dry_run s2"
  proof -
    from assms(4) show ?thesis
    proof
      assume "(milestone i = None \<or> milestone i = Some []) \<and> s2 = print (Processing t) s"
      then show ?thesis using assms(1) by simp
    next
      assume "\<exists>m n. milestone i = Some m \<and> m \<noteq> [] \<and> n \<noteq> 0
            \<and> create_or_get_milestone gh (print (Processing t) s) m = (Inr (Some n), s2)"
      then obtain m n where "create_or_get_milestone gh (print (Processing t) s) m = (Inr (Some n), s2)"
        by blast
      from create_or_get_milestone_frame [OF this] show ?thesis using assms(1) by simp
    qed
  qed
  from live_submit_issue [OF nd assms(5,6,7), of t]
  show "\<exists>pre. calls (snd (create_issue gh s i))
        = calls s2 @ pre @ [issue_create_args t b ls (milestone i)]
      \<and> list_all (\<lambda>a. \<exists>l\<in>set ls. a = label_lookup_args l
                        \<or> a = label_create_args l default_color) pre"
    by (simp add: ci)
  show "ls \<noteq> [] \<Longrightarrow> take 2 (drop 6 (issue_create_args t b ls (milestone i)))
        = [''--label'', join '','' ls]"
    by (simp add: issue_create_args_def)
qed

text \<open>
  Claim C4 says that an issue whose label could not be created is still submitted, with
  the full label list. By the lemmas above this is so when the body is not null and no
  call raises. The code in a live run on a record with a title, a label and a null
  \<open>body\<close>, when the label commands fail: the warning for the label is printed, the
  command is built and the progress line printed, then \<open>subprocess.run\<close> raises
  \<open>TypeError\<close> on the argument \<open>None\<close>; the only commands run are the two label commands.
  Likewise for a title with a NUL character, on which \<open>subprocess.run\<close> raises
  \<open>ValueError\<close>.
\<close>

theorem label_failure_then_submission_raises:
  "fst (create_issue gh_labels_fail (init ''r'' False ()) ex_null_body) = Inl TypeError
   \<and> calls (snd (create_issue gh_labels_fail (init ''r'' False ()) ex_null_body))
       = [label_lookup_args ''bug'', label_create_args ''bug'' default_color]
   \<and> out (snd (create_issue gh_labels_fail (init ''r'' False ()) ex_null_body))
       = [Processing ''T'', GhError, CreatingLabel ''bug'', GhError, LabelWarning ''bug'',
          CreatingIssue]
   \<and> fst (create_issue gh_nul_check (init ''r'' False ()) ex_nul_title) = Inl ValueError
   \<and> out (snd (create_issue gh_nul_check (init ''r'' False ()) ex_nul_title))
       = [Processing [CHR ''a'', CHR 0x00, CHR ''b''], GhError, CreatingLabel ''bug'', GhError,
          LabelWarning ''bug'', CreatingIssue]"
  by (simp add: run_defs gh_labels_fail_def gh_nul_check_def ex_null_body_def ex_nul_title_def)

subsection \<open>Dry run against live run\<close>

text \<open>When every call of the tool succeeds and no titled record has a null \<open>labels\<close> or
  \<open>body\<close>, a dry run and a live run of the same non-empty batch print the same summary:
  the titled issues created, the others failed.\<close>

lemma calls_succeed_exit0: "calls_succeed gh \<Longrightarrow> \<exists>raw. fst (gh w a) = Exit0 raw"
  unfolding calls_succeed_def by blast

lemma calls_succeed_lookup:
  assumes "calls_succeed gh"
  shows "\<exists>raw. fst (gh w (milestone_lookup_args r t)) = Exit0 raw
      \<and> (py_strip raw = [] \<or> reads_as_number raw)"
proof -
  from calls_succeed_exit0 [OF assms] obtain raw where
    e: "fst (gh w (milestone_lookup_args r t)) = Exit0 raw" by blast
  from assms have "\<forall>w r t raw. fst (gh w (milestone_lookup_args r t)) = Exit0 raw
      \<longrightarrow> py_strip raw = [] \<or> reads_as_number raw"
    by (simp add: calls_succeed_def)
  with e have "py_strip raw = [] \<or> reads_as_number raw" by blast
  with e show ?thesis by blast
qed

lemma calls_succeed_create:
  assumes "calls_succeed gh"
  shows "\<exists>raw. fst (gh w (milestone_create_args r t)) = Exit0 raw \<and> reads_as_number raw"
proof -
  from calls_succeed_exit0 [OF assms] obtain raw where
    e: "fst (gh w (milestone_create_args r t)) = Exit0 raw" by blast
  from assms have "\<forall>w r t raw. fst (gh w (milestone_create_args r t)) = Exit0 raw
      \<longrightarrow> reads_as_number raw"
    by (simp add: calls_succeed_def)
  with e have "reads_as_number raw" by blast
  with e show ?thesis by blast
qed

lemma calls_succeed_issue:
  assumes "calls_succeed gh"
  shows "\<exists>raw. fst (gh w (issue_create_args t b ls m)) = Exit0 raw \<and> py_strip raw \<noteq> []"
proof -
  have i: "take 1 (issue_create_args t b ls m) = [''issue'']" by (simp add: issue_create_args_def)
  from calls_succeed_exit0 [OF assms] obtain raw where
    "fst (gh w (issue_create_args t b ls m)) = Exit0 raw" by blast
  moreover from assms have "\<forall>w a raw. take 1 a = [''issue''] \<and> fst (gh w a) = Exit0 raw
      \<longrightarrow> py_strip raw \<noteq> []"
    by (simp add: calls_succeed_def)
  ultimately show ?thesis using i by blast
qed

lemma reads_as_numberD:
  assumes "reads_as_number raw"
  obtains n where "py_int raw = Some n" and "n \<noteq> 0" and "py_strip raw \<noteq> []"
  using assms py_int_Some_nonblank [of raw]
  by (auto simp: reads_as_number_def split: option.splits)

lemma live_create_milestone:
  assumes "calls_succeed gh"
  shows "\<exists>n s'. create_milestone gh s t = (Inr (Some n), s') \<and> n \<noteq> 0"
proof -
  obtain res s2 where r: "run_gh_command gh (print (CreatingMilestone t) s)
      (milestone_create_args (repo s) t) = (res, s2)"
    by (cases "run_gh_command gh (print (CreatingMilestone t) s) (milestone_create_args (repo s) t)")
  from calls_succeed_create [OF assms] obtain raw where
    raw: "fst (gh (world s) (milestone_create_args (repo s) t)) = Exit0 raw" "reads_as_number raw"
    by blast
  from raw(2) obtain n where n: "py_int raw = Some n" "n \<noteq> 0" "py_strip raw \<noteq> []"
    by (rule reads_as_numberD)
  have res: "res = Inr (Some (py_strip raw))" using run_gh_command_result [OF r] raw(1) by simp
  show ?thesis using n by (simp add: create_milestone_def r res)
qed

lemma live_create_or_get_milestone:
  assumes "calls_succeed gh" and "\<not> dry_run s" and "ids_nonzero (milestone_cache s)"
  shows "\<exists>n s'. create_or_get_milestone gh s t = (Inr (Some n), s') \<and> n \<noteq> 0
      \<and> \<not> dry_run s' \<and> ids_nonzero (milestone_cache s')"
proof -
  obtain r s' where c: "create_or_get_milestone gh s t = (r, s')"
    by (cases "create_or_get_milestone gh s t")
  note fr = create_or_get_milestone_frame [OF c]
  have "\<exists>n. r = Inr (Some n) \<and> n \<noteq> 0"
  proof (cases "map_of (milestone_cache s) t")
    case (Some k)
    then show ?thesis using c ids_nonzero_lookup [OF assms(3) Some]
      by (auto simp: create_or_get_milestone_def)
  next
    case None
    obtain res s1 where l: "run_gh_command gh s (milestone_lookup_args (repo s) t) = (res, s1)"
      by (cases "run_gh_command gh s (milestone_lookup_args (repo s) t)")
    from calls_succeed_lookup [OF assms(1)] obtain raw where
      raw: "fst (gh (world s) (milestone_lookup_args (repo s) t)) = Exit0 raw"
      "py_strip raw = [] \<or> reads_as_number raw"
      by blast
    have res: "res = Inr (Some (py_strip raw))" using run_gh_command_result [OF l] raw(1) by simp
    from raw(2) show ?thesis
    proof
      assume "py_strip raw = []"
      then have "(r, s') = create_milestone gh s1 t"
        using c None assms(2) by (simp add: create_or_get_milestone_def l res)
      then show ?thesis using live_create_milestone [OF assms(1), of s1 t] by auto
    next
      assume "reads_as_number raw"
      then obtain n where n: "py_int raw = Some n" "n \<noteq> 0" "py_strip raw \<noteq> []"
        by (rule reads_as_numberD)
      then show ?thesis using c None assms(2) by (auto simp: create_or_get_milestone_def l res)
    qed
  qed
  then obtain n where n: "r = Inr (Some n)" "n \<noteq> 0" by blast
  have "ids_nonzero (milestone_cache s')"
    using fr n assms(3) by (auto simp: ids_nonzero_def)
  then show ?thesis using c n fr assms(2) by simp
qed

lemma live_create_label_if_missing:
  assumes "calls_succeed gh"
  shows "\<exists>ok. fst (create_label_if_missing gh s l c) = Inr ok"
proof (cases "l \<in> set (label_cache s) \<or> dry_run s")
  case True
  then show ?thesis by (auto simp: create_label_if_missing_def)
next
  case False
  obtain res s1 where lk: "run_gh_command gh s (label_lookup_args l) = (res, s1)"
    by (cases "run_gh_command gh s (label_lookup_args l)")
  from calls_succeed_exit0 [OF assms] obtain raw where
    "fst (gh (world s) (label_lookup_args l)) = Exit0 raw" by blast
  then have res: "res = Inr (Some (py_strip raw))" using run_gh_command_result [OF lk] by simp
  obtain res2 s2 where cr: "run_gh_command gh (print (CreatingLabel l) s1) (label_create_args l c)
      = (res2, s2)"
    by (cases "run_gh_command gh (print (CreatingLabel l) s1) (label_create_args l c)")
  from calls_succeed_exit0 [OF assms] obtain raw2 where
    "fst (gh (world (print (CreatingLabel l) s1)) (label_create_args l c)) = Exit0 raw2" by blast
  then have res2: "res2 = Inr (Some (py_strip raw2))" using run_gh_command_result [OF cr] by simp
  show ?thesis using False
    by (auto simp: create_label_if_missing_def lk res create_label_def cr res2)
qed

lemma live_ensure_labels:
  assumes "calls_succeed gh"
  shows "fst (ensure_labels gh s ls) = Inr ()"
proof (induction ls arbitrary: s)
  case Nil
  show ?case by simp
next
  case (Cons l ls)
  obtain r1 s1 where c: "create_label_if_missing gh s l default_color = (r1, s1)"
    by (cases "create_label_if_missing gh s l default_color")
  from live_create_label_if_missing [OF assms, of s l default_color] c
  obtain ok where "r1 = Inr ok" by auto
  then show ?case using Cons.IH c by simp
qed

lemma ensure_labels_milestone_cache:
  assumes "ensure_labels gh s ls = (r, s')"
  shows "milestone_cache s' = milestone_cache s"
  using assms
proof (induction ls arbitrary: s)
  case Nil
  then show ?case by simp
next
  case (Cons l ls)
  obtain r1 s1 where c: "create_label_if_missing gh s l default_color = (r1, s1)"
    by (cases "create_label_if_missing gh s l default_color")
  note fr = create_label_if_missing_frame [OF c]
  show ?case
  proof (cases r1)
    case (Inl e)
    then show ?thesis using Cons.prems c fr by simp
  next
    case (Inr ok)
    let ?s2 = "if ok then s1 else print (LabelWarning l) s1"
    have "ensure_labels gh ?s2 ls = (r, s')" using Cons.prems c Inr by simp
    from Cons.IH [OF this] fr show ?thesis by simp
  qed
qed

lemma live_submit_issue_succeeds:
  assumes "calls_succeed gh" and "\<not> dry_run s" and "labels i = Some ls" and "body i = Some b"
  shows "fst (submit_issue gh s t i) = Inr True
    \<and> \<not> dry_run (snd (submit_issue gh s t i))
    \<and> milestone_cache (snd (submit_issue gh s t i)) = milestone_cache s"
proof -
  obtain r1 s1 where el: "ensure_labels gh s ls = (r1, s1)" by (cases "ensure_labels gh s ls")
  have r1: "r1 = Inr ()" using live_ensure_labels [OF assms(1), of s ls] el by simp
  have nd: "\<not> dry_run s1" using grows_ensure_labels [OF el] assms(2) by (simp add: grows_def)
  have mc: "milestone_cache s1 = milestone_cache s" by (rule ensure_labels_milestone_cache [OF el])
  obtain res s2 where r: "run_gh_command gh (print CreatingIssue s1)
      (issue_create_args t b ls (milestone i)) = (res, s2)"
    by (cases "run_gh_command gh (print CreatingIssue s1) (issue_create_args t b ls (milestone i))")
  note fr = run_gh_command_frame [OF r]
  from calls_succeed_issue [OF assms(1)] obtain raw where
    raw: "fst (gh (world (print CreatingIssue s1)) (issue_create_args t b ls (milestone i))) = Exit0 raw"
    "py_strip raw \<noteq> []"
    by blast
  have res: "res = Inr (Some (py_strip raw))" using run_gh_command_result [OF r] raw(1) by simp
  have "submit_issue gh s t i = (Inr True, print (CreatedIssue (py_strip raw)) s2)"
    using nd raw(2) assms(3,4) by (simp add: submit_issue_def el r1 r res)
  then show ?thesis using fr nd mc by simp
qed

lemma live_create_issue:
  assumes "calls_succeed gh" and "\<not> dry_run s" and "ids_nonzero (milestone_cache s)"
    and "titled i \<longrightarrow> well_formed i"
  shows "fst (create_issue gh s i) = Inr (titled i)
    \<and> \<not> dry_run (snd (create_issue gh s i))
    \<and> ids_nonzero (milestone_cache (snd (create_issue gh s i)))"
proof (cases "titled i")
  case False
  then show ?thesis using assms
    by (auto simp: create_issue_def titled_def split: option.splits)
next
  case True
  then obtain t where t: "title i = Some t" "t \<noteq> []"
    by (auto simp: titled_def split: option.splits)
  from True assms(4) obtain ls b where wf: "labels i = Some ls" "body i = Some b"
    by (auto simp: well_formed_def)
  let ?s1 = "print (Processing t) s"
  have d1: "\<not> dry_run ?s1" "ids_nonzero (milestone_cache ?s1)" using assms by simp_all
  show ?thesis
  proof (cases "milestone i = None \<or> milestone i = Some []")
    case nm: True
    have "create_issue gh s i = submit_issue gh ?s1 t i"
      using t nm by (auto simp: create_issue_def)
    then show ?thesis
      using live_submit_issue_succeeds [OF assms(1) d1(1) wf, of t] True d1(2) by simp
  next
    case False
    then obtain m where m: "milestone i = Some m" "m \<noteq> []" by auto
    from live_create_or_get_milestone [OF assms(1) d1, of m] obtain n s2 where
      c: "create_or_get_milestone gh ?s1 m = (Inr (Some n), s2)" "n \<noteq> 0"
      "\<not> dry_run s2" "ids_nonzero (milestone_cache s2)" by blast
    have "create_issue gh s i = submit_issue gh s2 t i"
      using t m c(1,2) by (simp add: create_issue_def)
    then show ?thesis
      using live_submit_issue_succeeds [OF assms(1) c(3) wf, of t] True c(4) by simp
  qed
qed

lemma live_issue_loop_counts:
  assumes "calls_succeed gh" and "\<not> dry_run s" and "ids_nonzero (milestone_cache s)"
    and "\<forall>i\<in>set is. titled i \<longrightarrow> well_formed i"
  shows "fst (issue_loop gh s c f is)
      = Inr (c + length (filter titled is), f + length (filter (\<lambda>i. \<not> titled i) is))"
  using assms(2,3,4)
proof (induction "is" arbitrary: s c f)
  case Nil
  then show ?case by simp
next
  case (Cons i "is")
  obtain r s1 where ci: "create_issue gh s i = (r, s1)" by (cases "create_issue gh s i")
  have wf: "titled i \<longrightarrow> well_formed i" using Cons.prems(3) by simp
  from live_create_issue [OF assms(1) Cons.prems(1,2) wf] ci
  have r: "r = Inr (titled i)" and d1: "\<not> dry_run s1" "ids_nonzero (milestone_cache s1)"
    by simp_all
  have rest: "\<forall>i\<in>set is. titled i \<longrightarrow> well_formed i" using Cons.prems(3) by simp
  show ?case using Cons.IH [OF d1 rest] ci r by simp
qed

lemma dry_run_counts_match_live_run:
  assumes "calls_succeed gh" and "batch \<noteq> []" and "\<forall>i\<in>set batch. titled i \<longrightarrow> well_formed i"
  shows "summaries (out (snd (process_yaml gh (init r True w) (Loaded (MappingDoc (Issues batch))))))
       = [(length batch, length (filter titled batch), length (filter (\<lambda>i. \<not> titled i) batch))]"
    and "summaries (out (snd (process_yaml gh (init r False w) (Loaded (MappingDoc (Issues batch))))))
       = [(length batch, length (filter titled batch), length (filter (\<lambda>i. \<not> titled i) batch))]"
    and "calls (snd (process_yaml gh (init r True w) (Loaded (MappingDoc (Issues batch))))) = []"
proof -
  have nl: "\<forall>i\<in>set batch. titled i \<longrightarrow> labels i \<noteq> None"
    using assms(3) by (simp add: well_formed_def)
  show "summaries (out (snd (process_yaml gh (init r True w) (Loaded (MappingDoc (Issues batch))))))
       = [(length batch, length (filter titled batch), length (filter (\<lambda>i. \<not> titled i) batch))]"
    by (rule dry_run_summary(2) [OF assms(2) nl])
  let ?s = "init r False w :: 'a creator"
  let ?s1 = "print (Found (length batch)) (print (Banner (repo ?s) (dry_run ?s)) ?s)"
  obtain res s' where lp: "issue_loop gh ?s1 0 0 batch = (res, s')"
    by (cases "issue_loop gh ?s1 0 0 batch")
  have "fst (issue_loop gh ?s1 0 0 batch)
      = Inr (0 + length (filter titled batch), 0 + length (filter (\<lambda>i. \<not> titled i) batch))"
    by (rule live_issue_loop_counts [OF assms(1) _ _ assms(3)]) (simp_all add: init_def ids_nonzero_def)
  then have res: "res = Inr (length (filter titled batch), length (filter (\<lambda>i. \<not> titled i) batch))"
    using lp by simp
  have g: "summaries (out s') = summaries (out ?s1)"
    using grows_issue_loop [OF lp] by (simp add: grows_def)
  show "summaries (out (snd (process_yaml gh ?s (Loaded (MappingDoc (Issues batch))))))
       = [(length batch, length (filter titled batch), length (filter (\<lambda>i. \<not> titled i) batch))]"
    using assms(2) lp res g by (simp add: process_yaml_summary init_def)
  show "calls (snd (process_yaml gh (init r True w) (Loaded (MappingDoc (Issues batch))))) = []"
    using dry_run_makes_no_call(4) [of "init r True w" gh] by (simp add: init_def)
qed

lemma calls_succeed_example: "calls_succeed (gh_const (Exit0 ''7''))"
  by (simp add: calls_succeed_def gh_const_def reads_as_number_def ev7)

text \<open>
  Claim C8 says that a dry run and a live run whose calls all succeed report the same
  counts. By the lemmas above this is so for a batch of well-formed records. The code
  on a batch of one record with a title, a label and a null \<open>body\<close>, every call of the
  tool printing \<open>7\<close>: the dry run reports one issue created and none failed; the live
  run runs the two label commands, which succeed, then raises \<open>TypeError\<close> on the
  submission and prints no summary.
\<close>

theorem dry_run_counts_issue_that_live_run_raises_on:
  "summaries (out (snd (process_yaml (gh_const (Exit0 ''7'')) (init ''r'' True ())
       (Loaded (MappingDoc (Issues [ex_null_body])))))) = [(1, 1, 0)]
   \<and> fst (process_yaml (gh_const (Exit0 ''7'')) (init ''r'' False ())
         (Loaded (MappingDoc (Issues [ex_null_body])))) = Inl TypeError
   \<and> summaries (out (snd (process_yaml (gh_const (Exit0 ''7'')) (init ''r'' False ())
         (Loaded (MappingDoc (Issues [ex_null_body])))))) = []
   \<and> calls (snd (process_yaml (gh_const (Exit0 ''7'')) (init ''r'' False ())
         (Loaded (MappingDoc (Issues [ex_null_body])))))
       = [label_lookup_args ''bug'', label_create_args ''bug'' default_color]"
  by (simp add: run_defs gh_const_def ex_null_body_def ev7)

end
